theory Spec2Isabelle
  imports Main
begin

section \<open>Session log parser of agentreflect (parser.py)\<close>

text \<open>
  A Python \<open>str\<close> is modelled as a \<open>string\<close>, a list of 8-bit characters: the
  code points below 256. On these the classifications used by the parser are finite
  tables, written out below. The line feed is the character 10.
\<close>

subsection \<open>Python string primitives\<close>

definition nl :: char where
  "nl = CHR 0x0A"

text \<open>\<open>str.isspace\<close> on one character, which is also the class \<open>\s\<close> of \<open>re\<close>
  for text patterns and the set that \<open>str.strip()\<close> removes.\<close>

definition is_space :: "char \<Rightarrow> bool" where
  "is_space c = (of_char c \<in> {9, 10, 11, 12, 13, 28, 29, 30, 31, 32, 133, 160 :: nat})"

text \<open>\<open>str.lower\<close> on one character: the ASCII capitals and the Latin-1 capitals
  (192 to 222 without the multiplication sign 215) move up by 32.\<close>

definition lower_char :: "char \<Rightarrow> char" where
  "lower_char c =
     (let n = (of_char c :: nat)
      in if (65 \<le> n \<and> n \<le> 90) \<or> (192 \<le> n \<and> n \<le> 222 \<and> n \<noteq> 215)
         then char_of (n + 32) else c)"

definition lower :: "string \<Rightarrow> string" where
  "lower s = map lower_char s"

definition lstrip :: "string \<Rightarrow> string" where
  "lstrip s = dropWhile is_space s"

definition rstrip :: "string \<Rightarrow> string" where
  "rstrip s = rev (dropWhile is_space (rev s))"

definition strip :: "string \<Rightarrow> string" where
  "strip s = lstrip (rstrip s)"

text \<open>\<open>s.split("\n")\<close>: the pieces between line feeds. The result is never the
  empty list, so the first branch of the \<open>case\<close> is not taken.\<close>

fun split_nl :: "string \<Rightarrow> string list" where
  "split_nl [] = [[]]"
| "split_nl (c # cs) =
     (if c = nl then [] # split_nl cs
      else (case split_nl cs of
              [] \<Rightarrow> [[c]]
            | l # ls \<Rightarrow> (c # l) # ls))"

text \<open>\<open>s.split("\n", n)\<close>: at most \<open>n\<close> cuts, the rest of the text is the last piece.\<close>

fun split_max :: "nat \<Rightarrow> string \<Rightarrow> string list" where
  "split_max n [] = [[]]"
| "split_max 0 (c # cs) = [c # cs]"
| "split_max (Suc n) (c # cs) =
     (if c = nl then [] # split_max n cs
      else (case split_max (Suc n) cs of
              [] \<Rightarrow> [[c]]
            | l # ls \<Rightarrow> (c # l) # ls))"

text \<open>\<open>s.startswith(p)\<close> and \<open>p in s\<close>.\<close>

fun startswith :: "string \<Rightarrow> string \<Rightarrow> bool" where
  "startswith s [] = True"
| "startswith [] (p # ps) = False"
| "startswith (c # cs) (p # ps) = (c = p \<and> startswith cs ps)"

fun contains :: "string \<Rightarrow> string \<Rightarrow> bool" where
  "contains [] p = (p = [])"
| "contains (c # cs) p = (startswith (c # cs) p \<or> contains cs p)"

text \<open>\<open>sep.join(xs)\<close> on strings.\<close>

fun join :: "string \<Rightarrow> string list \<Rightarrow> string" where
  "join sep [] = []"
| "join sep [x] = x"
| "join sep (x # y # ys) = x @ sep @ join sep (y # ys)"

text \<open>The decimal numeral of a natural number, as an f-string prints it.\<close>

definition digit :: "nat \<Rightarrow> char" where
  "digit d = char_of (48 + d)"

fun show_nat :: "nat \<Rightarrow> string" where
  "show_nat n = (if n < 10 then [digit n] else show_nat (n div 10) @ [digit (n mod 10)])"

declare show_nat.simps [simp del]

subsection \<open>Role normalization\<close>

definition ROLE_MAP :: "(string \<times> string) list" where
  "ROLE_MAP =
     [(''user'', ''user''),
      (''human'', ''user''),
      (''customer'', ''user''),
      (''assistant'', ''assistant''),
      (''ai'', ''assistant''),
      (''bot'', ''assistant''),
      (''agent'', ''assistant''),
      (''system'', ''system''),
      (''tool'', ''tool''),
      (''function'', ''tool'')]"

definition normalize_role :: "string \<Rightarrow> string" where
  "normalize_role raw =
     (case map_of ROLE_MAP (strip (lower raw)) of
        Some r \<Rightarrow> r
      | None \<Rightarrow> strip (lower raw))"

subsection \<open>Data model\<close>

text \<open>
  The values that \<open>json.loads\<close> returns: \<open>None\<close>, booleans, integers, floats,
  strings, lists and dictionaries. A float is kept by its \<open>repr\<close>; a dictionary is an
  association list in insertion order with distinct keys.
\<close>

datatype json =
    JNull
  | JBool bool
  | JInt int
  | JFloat string
  | JStr string
  | JArr "json list"
  | JObj "(string \<times> json) list"

text \<open>\<open>d.get(k, default)\<close> and \<open>k in d\<close>.\<close>

definition dict_get :: "(string \<times> json) list \<Rightarrow> string \<Rightarrow> json \<Rightarrow> json" where
  "dict_get d k dflt = (case map_of d k of Some v \<Rightarrow> v | None \<Rightarrow> dflt)"

definition dict_has :: "(string \<times> json) list \<Rightarrow> string \<Rightarrow> bool" where
  "dict_has d k = (map_of d k \<noteq> None)"

record message =
  role :: string
  content :: string
  metadata :: "(string \<times> json) list"

record session =
  messages :: "message list"
  source :: string
  format_detected :: string

text \<open>
  The exceptions that leave the parser: \<open>ParseError\<close> with its message, the
  \<open>AttributeError\<close> of \<open>raw.lower()\<close> on a role that is not a string, and the
  \<open>TypeError\<close> of \<open>"\n".join\<close> on a part that is not a string.
\<close>

datatype error = ParseError string | AttributeError | TypeError

text \<open>
  Two functions of the Python library are parameters of the model. \<open>loads\<close> is
  \<open>json.loads\<close>: \<open>Inr v\<close> is the decoded value, \<open>Inl e\<close> a \<open>JSONDecodeError\<close> whose
  text is \<open>e\<close>. \<open>pystr\<close> is the built-in \<open>str\<close> on a decoded value.
\<close>

type_synonym loads_fn = "string \<Rightarrow> string + json"
type_synonym str_fn = "json \<Rightarrow> string"

text \<open>\<open>_normalize_role\<close> on whatever the \<open>role\<close> field holds: only a string has
  \<open>lower\<close>.\<close>

fun normalize_role_of :: "json \<Rightarrow> error + string" where
  "normalize_role_of (JStr raw) = Inr (normalize_role raw)"
| "normalize_role_of _ = Inl AttributeError"

subsection \<open>Regular expressions of the parser\<close>

text \<open>
  Each pattern is anchored by \<open>^\<close> under \<open>re.MULTILINE\<close>, so it is tried at offset 0
  and after every line feed. A matcher below takes the text from such an offset and
  returns what the backtracking engine finds there: the text of the one capturing group
  and the length of the whole match. In each alternation no keyword is a prefix of
  another, so at most one alternative applies.
\<close>

definition starts_kw :: "bool \<Rightarrow> string \<Rightarrow> string \<Rightarrow> bool" where
  "starts_kw ignorecase s kw =
     (length kw \<le> length s \<and>
      (if ignorecase then lower (take (length kw) s) = lower kw
       else take (length kw) s = kw))"

fun match_alt :: "bool \<Rightarrow> string list \<Rightarrow> string \<Rightarrow> nat option" where
  "match_alt ignorecase [] s = None"
| "match_alt ignorecase (kw # kws) s =
     (if starts_kw ignorecase s kw then Some (length kw) else match_alt ignorecase kws s)"

definition META_KEYS :: "string list" where
  "META_KEYS = [''session_id'', ''agent'', ''model'', ''timestamp'']"

definition SECTION_ROLES :: "string list" where
  "SECTION_ROLES = [''Human'', ''Assistant'', ''User'', ''AI'', ''System'', ''Tool'']"

definition TEXT_ROLES :: "string list" where
  "TEXT_ROLES = [''User'', ''Human'', ''Customer'', ''Assistant'', ''AI'', ''Bot'', ''Agent'',
                 ''System'', ''Tool'']"

text \<open>\<open>(session_id|agent|model|timestamp)\s*[:=]\<close>: the length of the match.\<close>

definition meta_match :: "string \<Rightarrow> nat option" where
  "meta_match s =
     (case match_alt False META_KEYS s of
        None \<Rightarrow> None
      | Some k \<Rightarrow>
          (let w = takeWhile is_space (drop k s)
           in case dropWhile is_space (drop k s) of
                [] \<Rightarrow> None
              | c # _ \<Rightarrow> if c = CHR '':'' \<or> c = CHR ''='' then Some (k + length w + 1)
                         else None))"

text \<open>The same followed by \<open>.*$\<close>: the match runs to the end of the line.\<close>

definition header_match :: "string \<Rightarrow> nat option" where
  "header_match s =
     (case meta_match s of
        None \<Rightarrow> None
      | Some k \<Rightarrow> Some (k + length (takeWhile (\<lambda>c. c \<noteq> nl) (drop k s))))"

text \<open>
  \<open>##\s*(Human|Assistant|User|AI|System|Tool)\s*$\<close>, ignoring case. The last \<open>\s*\<close>
  is greedy and may cross lines; \<open>$\<close> holds at the end of the text and before a line
  feed, so the match ends at the end of the text when the white space reaches it, and
  else before the last line feed of the white space.
\<close>

definition before_last_nl :: "string \<Rightarrow> string" where
  "before_last_nl w = butlast (rev (dropWhile (\<lambda>c. c \<noteq> nl) (rev w)))"

definition section_match :: "string \<Rightarrow> (string \<times> nat) option" where
  "section_match s =
     (if startswith s ''##'' then
        (let w1 = takeWhile is_space (drop 2 s);
             a = dropWhile is_space (drop 2 s)
         in case match_alt True SECTION_ROLES a of
              None \<Rightarrow> None
            | Some k \<Rightarrow>
                (let w2 = takeWhile is_space (drop k a)
                 in if dropWhile is_space (drop k a) = []
                    then Some (take k a, 2 + length w1 + k + length w2)
                    else if nl \<in> set w2
                    then Some (take k a, 2 + length w1 + k + length (before_last_nl w2))
                    else None))
      else None)"

text \<open>
  \<open>(?:\*\*|##\s*)?(User|...|Tool)(?:\*\*)?[:\s]*\n?\<close>, ignoring case. After the
  label nothing is required: \<open>[:\s]*\<close> takes every colon and white space that follows,
  none when there is none, and the final \<open>\n?\<close> finds nothing left to take.
\<close>

definition role_match :: "string \<Rightarrow> (string \<times> nat) option" where
  "role_match s =
     (let d = (if startswith s ''**'' then 2
               else if startswith s ''##'' then 2 + length (takeWhile is_space (drop 2 s))
               else 0);
          a = drop d s
      in case match_alt True TEXT_ROLES a of
           None \<Rightarrow> None
         | Some k \<Rightarrow>
             (let e = (if startswith (drop k a) ''**'' then 2 else 0);
                  sep = takeWhile (\<lambda>c. c = CHR '':'' \<or> is_space c) (drop (k + e) a)
              in Some (take k a, d + k + e + length sep)))"

text \<open>\<open>re.search\<close> of a pattern anchored by \<open>^\<close>: is there a line start where it
  matches. \<open>bol\<close> says whether the current offset is one.\<close>

fun search_bol :: "(string \<Rightarrow> bool) \<Rightarrow> bool \<Rightarrow> string \<Rightarrow> bool" where
  "search_bol p bol [] = (bol \<and> p [])"
| "search_bol p bol (c # cs) = ((bol \<and> p (c # cs)) \<or> search_bol p (c = nl) cs)"

text \<open>
  \<open>pattern.split(s)\<close> for a pattern with one group: the text before the first match,
  then for every match, left to right and without overlap, the group and the text up to
  the next match. After a match of length \<open>n\<close> the search goes on behind it.
\<close>

fun re_split :: "(string \<Rightarrow> (string \<times> nat) option) \<Rightarrow> bool \<Rightarrow> string \<Rightarrow> string list" where
  "re_split m bol [] = [[]]"
| "re_split m bol (c # cs) =
     (case (if bol then m (c # cs) else None) of
        Some (g, n) \<Rightarrow> [] # g # re_split m ((c # cs) ! (n - 1) = nl) (drop (n - 1) cs)
      | None \<Rightarrow>
          (case re_split m (c = nl) cs of
             [] \<Rightarrow> [[c]]
           | t # parts \<Rightarrow> (c # t) # parts))"

text \<open>The loop over \<open>re.finditer\<close> in \<open>parse_nanobot\<close>: the largest end offset of
  a match, 0 when there is none. \<open>pos\<close> is the current offset.\<close>

fun header_end_from :: "bool \<Rightarrow> nat \<Rightarrow> nat \<Rightarrow> string \<Rightarrow> nat" where
  "header_end_from bol pos header_end [] = header_end"
| "header_end_from bol pos header_end (c # cs) =
     (case (if bol then header_match (c # cs) else None) of
        Some n \<Rightarrow> header_end_from ((c # cs) ! (n - 1) = nl) (pos + n)
                    (max header_end (pos + n)) (drop (n - 1) cs)
      | None \<Rightarrow> header_end_from (c = nl) (pos + 1) header_end cs)"

text \<open>\<open>re.sub(r"\n---\s*$", "", s)\<close>: without \<open>re.MULTILINE\<close> the pattern matches
  only where the rest of the text after \<open>---\<close> is white space; the text is cut at the
  first such place.\<close>

definition sep_match :: "string \<Rightarrow> bool" where
  "sep_match s = (startswith s (nl # ''---'') \<and> list_all is_space (drop 4 s))"

fun sub_sep :: "string \<Rightarrow> string" where
  "sub_sep [] = []"
| "sub_sep (c # cs) = (if sep_match (c # cs) then [] else c # sub_sep cs)"

subsection \<open>Format detection\<close>

definition is_nanobot_format :: "string \<Rightarrow> bool" where
  "is_nanobot_format text =
     (let markers = [''## Human'', ''## Assistant'', ''---''];
          score = length (filter (\<lambda>m. contains text m) markers);
          score = (if search_bol (\<lambda>s. meta_match s \<noteq> None) True text then score + 2
                   else score)
      in 3 \<le> score)"

text \<open>The first check of \<open>detect_format\<close>, on the stripped text.\<close>

definition json_array_check :: "loads_fn \<Rightarrow> string \<Rightarrow> bool" where
  "json_array_check loads stripped =
     (if startswith stripped ''['' then
        (case loads stripped of
           Inl e \<Rightarrow> False
         | Inr data \<Rightarrow>
             (case data of
                JArr (first # rest) \<Rightarrow>
                  (case first of
                     JObj d \<Rightarrow> dict_has d ''role'' \<or> dict_has d ''content''
                   | _ \<Rightarrow> False)
              | _ \<Rightarrow> False))
      else False)"

text \<open>The loop of the second check: blank lines are passed over, a line that does not
  decode ends the loop with the count reached so far.\<close>

fun jsonl_count :: "loads_fn \<Rightarrow> nat \<Rightarrow> string list \<Rightarrow> nat" where
  "jsonl_count loads cnt [] = cnt"
| "jsonl_count loads cnt (l # ls) =
     (if strip l = [] then jsonl_count loads cnt ls
      else (case loads (strip l) of
              Inl e \<Rightarrow> cnt
            | Inr obj \<Rightarrow>
                (case obj of
                   JObj d \<Rightarrow> jsonl_count loads (cnt + 1) ls
                 | _ \<Rightarrow> jsonl_count loads cnt ls)))"

definition detect_format :: "loads_fn \<Rightarrow> string \<Rightarrow> string" where
  "detect_format loads text =
     (let stripped = strip text
      in if json_array_check loads stripped then ''json''
         else if 2 \<le> jsonl_count loads 0 (take 5 (split_max 5 stripped)) then ''jsonl''
         else if is_nanobot_format stripped then ''nanobot''
         else ''text'')"

subsection \<open>Parsers\<close>

text \<open>The multi-part branch of \<open>parse_json\<close>: the values appended to
  \<open>text_parts\<close>, then joined by line feeds, which needs every one to be a string.\<close>

fun text_parts :: "json list \<Rightarrow> json list" where
  "text_parts [] = []"
| "text_parts (JObj d # parts) =
     (if map_of d ''type'' = Some (JStr ''text'')
      then dict_get d ''text'' (JStr []) # text_parts parts
      else text_parts parts)"
| "text_parts (JStr s # parts) = JStr s # text_parts parts"
| "text_parts (p # parts) = text_parts parts"

fun strings_of :: "json list \<Rightarrow> error + string list" where
  "strings_of [] = Inr []"
| "strings_of (JStr s # vs) =
     (case strings_of vs of Inl e \<Rightarrow> Inl e | Inr ss \<Rightarrow> Inr (s # ss))"
| "strings_of (v # vs) = Inl TypeError"

fun json_content :: "str_fn \<Rightarrow> json \<Rightarrow> error + string" where
  "json_content pystr (JArr parts) =
     (case strings_of (text_parts parts) of
        Inl e \<Rightarrow> Inl e
      | Inr ss \<Rightarrow> Inr (join [nl] ss))"
| "json_content pystr (JStr s) = Inr s"
| "json_content pystr v = Inr (pystr v)"

definition meta_of :: "(string \<times> json) list \<Rightarrow> (string \<times> json) list" where
  "meta_of d = filter (\<lambda>(k, v). k \<noteq> ''role'' \<and> k \<noteq> ''content'') d"

text \<open>The loop of \<open>parse_json\<close> from item \<open>i\<close> on.\<close>

fun json_items :: "str_fn \<Rightarrow> nat \<Rightarrow> json list \<Rightarrow> error + message list" where
  "json_items pystr i [] = Inr []"
| "json_items pystr i (item # items) =
     (case item of
        JObj d \<Rightarrow>
          (case normalize_role_of (dict_get d ''role'' (JStr ''unknown'')) of
             Inl e \<Rightarrow> Inl e
           | Inr r \<Rightarrow>
               (case json_content pystr (dict_get d ''content'' (JStr [])) of
                  Inl e \<Rightarrow> Inl e
                | Inr content_str \<Rightarrow>
                    (case json_items pystr (Suc i) items of
                       Inl e \<Rightarrow> Inl e
                     | Inr ms \<Rightarrow>
                         Inr (\<lparr>role = r, content = content_str, metadata = meta_of d\<rparr> # ms))))
      | _ \<Rightarrow> Inl (ParseError (''Item '' @ show_nat i @ '' is not a JSON object'')))"

definition parse_json :: "loads_fn \<Rightarrow> str_fn \<Rightarrow> string \<Rightarrow> error + message list" where
  "parse_json loads pystr text =
     (case loads (strip text) of
        Inl exc \<Rightarrow> Inl (ParseError (''Invalid JSON: '' @ exc))
      | Inr data \<Rightarrow>
          (case data of
             JArr items \<Rightarrow> json_items pystr 0 items
           | _ \<Rightarrow> Inl (ParseError ''JSON content is not an array'')))"

text \<open>In \<open>parse_jsonl\<close> a content that is not a string is handed to \<open>str\<close>, a list
  too.\<close>

fun jsonl_content :: "str_fn \<Rightarrow> json \<Rightarrow> string" where
  "jsonl_content pystr (JStr s) = s"
| "jsonl_content pystr v = pystr v"

text \<open>The loop of \<open>parse_jsonl\<close> over the lines, \<open>lineno\<close> the number of the first.\<close>

fun jsonl_lines :: "loads_fn \<Rightarrow> str_fn \<Rightarrow> nat \<Rightarrow> string list \<Rightarrow> error + message list" where
  "jsonl_lines loads pystr lineno [] = Inr []"
| "jsonl_lines loads pystr lineno (l # ls) =
     (if strip l = [] then jsonl_lines loads pystr (Suc lineno) ls
      else (case loads (strip l) of
              Inl exc \<Rightarrow>
                Inl (ParseError (''Invalid JSON on line '' @ show_nat lineno @ '': '' @ exc))
            | Inr obj \<Rightarrow>
                (case obj of
                   JObj d \<Rightarrow>
                     (case normalize_role_of (dict_get d ''role'' (JStr ''unknown'')) of
                        Inl e \<Rightarrow> Inl e
                      | Inr r \<Rightarrow>
                          (case jsonl_lines loads pystr (Suc lineno) ls of
                             Inl e \<Rightarrow> Inl e
                           | Inr ms \<Rightarrow>
                               Inr (\<lparr>role = r,
                                     content = jsonl_content pystr (dict_get d ''content'' (JStr [])),
                                     metadata = meta_of d\<rparr> # ms)))
                 | _ \<Rightarrow> jsonl_lines loads pystr (Suc lineno) ls)))"

definition parse_jsonl :: "loads_fn \<Rightarrow> str_fn \<Rightarrow> string \<Rightarrow> error + message list" where
  "parse_jsonl loads pystr text = jsonl_lines loads pystr 1 (split_nl (strip text))"

text \<open>The walk over \<open>parts[1], parts[2]\<close>, then \<open>parts[3], parts[4]\<close>, and so on, of
  \<open>parse_text\<close>; it is given the parts after the first.\<close>

fun text_pairs :: "string list \<Rightarrow> message list" where
  "text_pairs (raw_role # body # parts) =
     (if strip body \<noteq> []
      then \<lparr>role = normalize_role (strip raw_role), content = strip body, metadata = []\<rparr>
             # text_pairs parts
      else text_pairs parts)"
| "text_pairs parts = []"

definition parse_text :: "string \<Rightarrow> message list" where
  "parse_text text =
     (let parts = re_split role_match True text
      in if length parts < 3
         then (if strip text \<noteq> []
               then [\<lparr>role = ''unknown'', content = strip text, metadata = []\<rparr>]
               else [])
         else text_pairs (tl parts))"

text \<open>The same walk in \<open>parse_nanobot\<close>, which also cuts a closing separator.\<close>

fun nanobot_pairs :: "string list \<Rightarrow> message list" where
  "nanobot_pairs (raw_role # piece # parts) =
     (let msg_content = strip (sub_sep (strip piece))
      in if msg_content \<noteq> []
         then \<lparr>role = normalize_role (strip raw_role), content = msg_content, metadata = []\<rparr>
                # nanobot_pairs parts
         else nanobot_pairs parts)"
| "nanobot_pairs parts = []"

definition nanobot_body :: "string \<Rightarrow> string" where
  "nanobot_body text = strip (drop (header_end_from True 0 0 text) text)"

definition nanobot_sections :: "string \<Rightarrow> message list" where
  "nanobot_sections text = nanobot_pairs (tl (re_split section_match True (nanobot_body text)))"

definition parse_nanobot :: "string \<Rightarrow> message list" where
  "parse_nanobot text =
     (if nanobot_sections text = [] then parse_text text else nanobot_sections text)"

subsection \<open>Public entry point\<close>

text \<open>\<open>parser_map.get(fmt, parse_text)\<close> applied to the text.\<close>

definition run_parser :: "loads_fn \<Rightarrow> str_fn \<Rightarrow> string \<Rightarrow> string \<Rightarrow> error + message list" where
  "run_parser loads pystr fmt text =
     (if fmt = ''json'' then parse_json loads pystr text
      else if fmt = ''jsonl'' then parse_jsonl loads pystr text
      else if fmt = ''nanobot'' then Inr (parse_nanobot text)
      else Inr (parse_text text))"

definition parse_session :: "loads_fn \<Rightarrow> str_fn \<Rightarrow> string \<Rightarrow> string \<Rightarrow> error + session" where
  "parse_session loads pystr text src =
     (if text = [] \<or> strip text = [] then Inl (ParseError ''Empty session log'')
      else
        (let fmt = detect_format loads text
         in case run_parser loads pystr fmt text of
              Inl e \<Rightarrow> Inl e
            | Inr msgs \<Rightarrow>
                if msgs = []
                then Inl (ParseError
                       (''No messages found in session log (detected format: '' @ fmt @ '')''))
                else Inr \<lparr>messages = msgs, source = src, format_detected = fmt\<rparr>))"

subsection \<open>A decoder and a \<open>str\<close> for the examples\<close>

text \<open>
  The theorems below hold for every \<open>loads\<close> and \<open>pystr\<close>. The examples need one
  of each. \<open>loads_ex\<close> follows the decoder of the \<open>json\<close> module on the grammar
  of RFC 8259 with integers for numbers: white space is blank, tab, line feed and carriage
  return; a key given twice keeps its first place and its last value. It does not decode
  fractions, exponents, \<open>NaN\<close>, the infinities and \<open>\u\<close> escapes; no example
  contains one.
\<close>

definition is_json_ws :: "char \<Rightarrow> bool" where
  "is_json_ws c = (of_char c \<in> {32, 9, 10, 13 :: nat})"

definition skip_ws :: "string \<Rightarrow> string" where
  "skip_ws s = dropWhile is_json_ws s"

definition unescape :: "char \<Rightarrow> char option" where
  "unescape e =
     (if e = CHR 0x22 \<or> e = CHR 0x5C \<or> e = CHR ''/'' then Some e
      else if e = CHR ''b'' then Some (CHR 0x08)
      else if e = CHR ''f'' then Some (CHR 0x0C)
      else if e = CHR ''n'' then Some (CHR 0x0A)
      else if e = CHR ''r'' then Some (CHR 0x0D)
      else if e = CHR ''t'' then Some (CHR 0x09)
      else None)"

fun scan_string :: "string \<Rightarrow> (string \<times> string) option" where
  "scan_string [] = None"
| "scan_string [c] = (if c = CHR 0x22 then Some ([], []) else None)"
| "scan_string (c # e # cs) =
     (if c = CHR 0x22 then Some ([], e # cs)
      else if c = CHR 0x5C then
        (case unescape e of
           None \<Rightarrow> None
         | Some x \<Rightarrow> (case scan_string cs of None \<Rightarrow> None | Some (t, r) \<Rightarrow> Some (x # t, r)))
      else if (of_char c :: nat) < 32 then None
      else (case scan_string (e # cs) of None \<Rightarrow> None | Some (t, r) \<Rightarrow> Some (c # t, r)))"

definition is_digit :: "char \<Rightarrow> bool" where
  "is_digit c = (48 \<le> (of_char c :: nat) \<and> (of_char c :: nat) \<le> 57)"

definition digits_val :: "string \<Rightarrow> nat" where
  "digits_val ds = foldl (\<lambda>a c. 10 * a + (of_char c - 48)) 0 ds"

definition scan_nat :: "string \<Rightarrow> (nat \<times> string) option" where
  "scan_nat s =
     (case s of
        [] \<Rightarrow> None
      | c # cs \<Rightarrow>
          if c = CHR ''0'' then Some (0, cs)
          else if is_digit c then Some (digits_val (takeWhile is_digit s), dropWhile is_digit s)
          else None)"

definition no_fraction :: "string \<Rightarrow> bool" where
  "no_fraction r =
     (case r of
        [] \<Rightarrow> True
      | c # cs \<Rightarrow>
          if c = CHR ''.'' then (case cs of [] \<Rightarrow> True | d # _ \<Rightarrow> \<not> is_digit d)
          else if c = CHR ''e'' \<or> c = CHR ''E'' then
            (case cs of
               [] \<Rightarrow> True
             | d # ds \<Rightarrow>
                 if d = CHR ''+'' \<or> d = CHR ''-'' then (case ds of [] \<Rightarrow> True | x # _ \<Rightarrow> \<not> is_digit x)
                 else \<not> is_digit d)
          else True)"

definition scan_number :: "string \<Rightarrow> (json \<times> string) option" where
  "scan_number s =
     (case s of
        [] \<Rightarrow> None
      | c # cs \<Rightarrow>
          (case (if c = CHR ''-'' then scan_nat cs else scan_nat s) of
             None \<Rightarrow> None
           | Some (n, r) \<Rightarrow>
               if no_fraction r then Some (JInt (if c = CHR ''-'' then - int n else int n), r)
               else None))"

fun dict_set :: "string \<Rightarrow> json \<Rightarrow> (string \<times> json) list \<Rightarrow> (string \<times> json) list" where
  "dict_set k v [] = [(k, v)]"
| "dict_set k v ((k', v') # d) = (if k = k' then (k, v) # d else (k', v') # dict_set k v d)"

fun decode_value :: "nat \<Rightarrow> string \<Rightarrow> (json \<times> string) option"
and decode_elems :: "nat \<Rightarrow> string \<Rightarrow> (json list \<times> string) option"
and decode_members :: "nat \<Rightarrow> string \<Rightarrow> ((string \<times> json) list \<times> string) option" where
  "decode_value 0 s = None"
| "decode_value (Suc n) s =
     (case s of
        [] \<Rightarrow> None
      | c # cs \<Rightarrow>
          if c = CHR 0x22 then
            (case scan_string cs of None \<Rightarrow> None | Some (t, r) \<Rightarrow> Some (JStr t, r))
          else if c = CHR ''['' then
            (if startswith (skip_ws cs) '']'' then Some (JArr [], drop 1 (skip_ws cs))
             else (case decode_elems n (skip_ws cs) of
                     None \<Rightarrow> None
                   | Some (vs, r) \<Rightarrow> Some (JArr vs, r)))
          else if c = CHR ''{'' then
            (if startswith (skip_ws cs) ''}'' then Some (JObj [], drop 1 (skip_ws cs))
             else (case decode_members n (skip_ws cs) of
                     None \<Rightarrow> None
                   | Some (kvs, r) \<Rightarrow> Some (JObj (foldl (\<lambda>d (k, v). dict_set k v d) [] kvs), r)))
          else if startswith s ''null'' then Some (JNull, drop 4 s)
          else if startswith s ''true'' then Some (JBool True, drop 4 s)
          else if startswith s ''false'' then Some (JBool False, drop 5 s)
          else scan_number s)"
| "decode_elems 0 s = None"
| "decode_elems (Suc n) s =
     (case decode_value n s of
        None \<Rightarrow> None
      | Some (v, r) \<Rightarrow>
          if startswith (skip_ws r) '']'' then Some ([v], drop 1 (skip_ws r))
          else if startswith (skip_ws r) '','' then
            (case decode_elems n (skip_ws (drop 1 (skip_ws r))) of
               None \<Rightarrow> None
             | Some (vs, r') \<Rightarrow> Some (v # vs, r'))
          else None)"
| "decode_members 0 s = None"
| "decode_members (Suc n) s =
     (if startswith s [CHR 0x22] then
        (case scan_string (drop 1 s) of
           None \<Rightarrow> None
         | Some (k, r) \<Rightarrow>
             if startswith (skip_ws r) '':'' then
               (case decode_value n (skip_ws (drop 1 (skip_ws r))) of
                  None \<Rightarrow> None
                | Some (v, r') \<Rightarrow>
                    if startswith (skip_ws r') ''}'' then Some ([(k, v)], drop 1 (skip_ws r'))
                    else if startswith (skip_ws r') '','' then
                      (case decode_members n (skip_ws (drop 1 (skip_ws r'))) of
                         None \<Rightarrow> None
                       | Some (kvs, r'') \<Rightarrow> Some ((k, v) # kvs, r''))
                    else None)
             else None)
      else None)"

definition json_decode :: "string \<Rightarrow> json option" where
  "json_decode s =
     (case decode_value (2 * length s + 2) (skip_ws s) of
        None \<Rightarrow> None
      | Some (v, r) \<Rightarrow> if skip_ws r = [] then Some v else None)"

text \<open>The text of a \<open>JSONDecodeError\<close> is not modelled: one fixed text stands for it.\<close>

definition loads_ex :: loads_fn where
  "loads_ex s = (case json_decode s of None \<Rightarrow> Inl ''JSONDecodeError'' | Some v \<Rightarrow> Inr v)"


text \<open>\<open>repr\<close> of a string, and \<open>str\<close> of a decoded value.\<close>

definition hex_digit :: "nat \<Rightarrow> char" where
  "hex_digit d = (if d < 10 then char_of (48 + d) else char_of (87 + d))"

definition repr_char :: "char \<Rightarrow> char \<Rightarrow> string" where
  "repr_char q c =
     (let n = (of_char c :: nat)
      in if c = q \<or> c = CHR 0x5C then [CHR 0x5C, c]
         else if n = 9 then [CHR 0x5C, CHR ''t'']
         else if n = 10 then [CHR 0x5C, CHR ''n'']
         else if n = 13 then [CHR 0x5C, CHR ''r'']
         else if n < 32 \<or> n = 127 \<or> (128 \<le> n \<and> n \<le> 160) \<or> n = 173
         then [CHR 0x5C, CHR ''x'', hex_digit (n div 16), hex_digit (n mod 16)]
         else [c])"

definition repr_str :: "string \<Rightarrow> string" where
  "repr_str s =
     (let q = (if CHR 0x27 \<in> set s \<and> CHR 0x22 \<notin> set s then CHR 0x22 else CHR 0x27)
      in [q] @ concat (map (repr_char q) s) @ [q])"

definition show_int :: "int \<Rightarrow> string" where
  "show_int i = (if i < 0 then CHR ''-'' # show_nat (nat (- i)) else show_nat (nat i))"

fun py_repr :: "json \<Rightarrow> string" where
  "py_repr JNull = ''None''"
| "py_repr (JBool b) = (if b then ''True'' else ''False'')"
| "py_repr (JInt i) = show_int i"
| "py_repr (JFloat r) = r"
| "py_repr (JStr s) = repr_str s"
| "py_repr (JArr vs) = ''['' @ join '', '' (map py_repr vs) @ '']''"
| "py_repr (JObj d) =
     ''{'' @ join '', '' (map (\<lambda>kv. repr_str (fst kv) @ '': '' @ py_repr (snd kv)) d) @ ''}''"

definition str_ex :: str_fn where
  "str_ex v = (case v of JStr s \<Rightarrow> s | _ \<Rightarrow> py_repr v)"

subsection \<open>Notions used in the statements\<close>

text \<open>The suffixes of a text that begin at the start of a line, the empty suffix left out:
  the places where a pattern anchored by \<open>^\<close> is tried. \<open>bol\<close> says whether the text
  itself begins a line.\<close>

fun bol_suffixes :: "bool \<Rightarrow> string \<Rightarrow> string list" where
  "bol_suffixes bol [] = []"
| "bol_suffixes bol (c # cs) = (if bol then [c # cs] else []) @ bol_suffixes (c = nl) cs"

definition line_starts :: "string \<Rightarrow> string list" where
  "line_starts s = bol_suffixes True s"

text \<open>Notions for the line-delimited check of \<open>detect_format\<close>: a blank line, a line
  that decodes, a line that decodes to a mapping; the first five lines of the stripped
  text; of some lines, those before the first one that is neither blank nor decodes.\<close>

definition blank :: "string \<Rightarrow> bool" where
  "blank l = (strip l = [])"

definition decodes :: "loads_fn \<Rightarrow> string \<Rightarrow> bool" where
  "decodes loads l = (case loads (strip l) of Inl e \<Rightarrow> False | Inr v \<Rightarrow> True)"

definition mapping_line :: "loads_fn \<Rightarrow> string \<Rightarrow> bool" where
  "mapping_line loads l =
     (\<not> blank l \<and> (case loads (strip l) of Inr (JObj d) \<Rightarrow> True | _ \<Rightarrow> False))"

definition first_lines :: "string \<Rightarrow> string list" where
  "first_lines text = take 5 (split_nl (strip text))"

definition scanned_lines :: "loads_fn \<Rightarrow> string list \<Rightarrow> string list" where
  "scanned_lines loads ls = takeWhile (\<lambda>l. blank l \<or> decodes loads l) ls"

definition jsonl_rule :: "loads_fn \<Rightarrow> string \<Rightarrow> bool" where
  "jsonl_rule loads text =
     (2 \<le> length (filter (mapping_line loads) (scanned_lines loads (first_lines text))))"

text \<open>The wording of the specification: the first five lines that are not blank.\<close>

definition first_nonblank_lines :: "string \<Rightarrow> string list" where
  "first_nonblank_lines text = take 5 (filter (\<lambda>l. \<not> blank l) (split_nl text))"

text \<open>Notions for the structured-array parser. An element as the specification takes
  it is a mapping with a \<open>role\<close> that is a string and a \<open>content\<close>; when the content
  is a list, the parts collected from it are strings. A message stands for such an
  element when its role is the normalized role, its content the extracted content and its
  metadata the remaining fields.\<close>

fun is_str :: "json \<Rightarrow> bool" where
  "is_str (JStr s) = True"
| "is_str v = False"

definition role_content_mapping :: "json \<Rightarrow> bool" where
  "role_content_mapping item =
     (case item of
        JObj d \<Rightarrow>
          (case (map_of d ''role'', map_of d ''content'') of
             (Some (JStr r), Some (JArr parts)) \<Rightarrow> list_all is_str (text_parts parts)
           | (Some (JStr r), Some c) \<Rightarrow> True
           | _ \<Rightarrow> False)
      | _ \<Rightarrow> False)"

definition message_for :: "str_fn \<Rightarrow> json \<Rightarrow> message \<Rightarrow> bool" where
  "message_for pystr item m =
     (case item of
        JObj d \<Rightarrow>
          (case (map_of d ''role'', map_of d ''content'') of
             (Some (JStr r), Some c) \<Rightarrow>
               role m = normalize_role r \<and> json_content pystr c = Inr (content m)
               \<and> metadata m = meta_of d
           | _ \<Rightarrow> False)
      | _ \<Rightarrow> False)"

text \<open>Notions for the line-delimited parser: the number of line feeds in the white space
  that \<open>strip\<close> removes at the front of a text, which is the number of lines lost there;
  and a line that the loop of \<open>parse_jsonl\<close> passes without raising: a blank line, a line
  that decodes to something that is not a mapping, or to a mapping whose role, \<open>unknown\<close>
  when there is none, is a string.\<close>

definition stripped_leading_lines :: "string \<Rightarrow> nat" where
  "stripped_leading_lines text = length (filter (\<lambda>c. c = nl) (takeWhile is_space text))"

definition line_passes :: "loads_fn \<Rightarrow> string \<Rightarrow> bool" where
  "line_passes loads l =
     (blank l \<or>
      (case loads (strip l) of
         Inl e \<Rightarrow> False
       | Inr (JObj d) \<Rightarrow> is_str (dict_get d ''role'' (JStr ''unknown''))
       | Inr v \<Rightarrow> True))"

section \<open>Properties\<close>

subsection \<open>Stripping and lower-casing\<close>

lemma lower_char_idem: "lower_char (lower_char c) = lower_char c"
  by (simp add: lower_char_def Let_def)

lemma is_space_lower_char: "is_space (lower_char c) = is_space c"
  by (auto simp: lower_char_def is_space_def Let_def)

lemma lower_idem: "lower (lower s) = lower s"
  by (simp add: lower_def lower_char_idem)

lemma lstrip_lower: "lstrip (lower s) = lower (lstrip s)"
  by (simp add: lstrip_def lower_def dropWhile_map comp_def is_space_lower_char)

lemma rstrip_lower: "rstrip (lower s) = lower (rstrip s)"
  by (simp add: rstrip_def lower_def dropWhile_map comp_def is_space_lower_char rev_map)

lemma strip_lower: "strip (lower s) = lower (strip s)"
  by (simp add: strip_def lstrip_lower rstrip_lower)

lemma lstrip_id: "s = [] \<or> \<not> is_space (hd s) \<Longrightarrow> lstrip s = s"
  by (cases s) (auto simp: lstrip_def)

lemma rstrip_id: "s = [] \<or> \<not> is_space (last s) \<Longrightarrow> rstrip s = s"
  by (cases s rule: rev_cases) (auto simp: rstrip_def)

lemma rstrip_last: "rstrip s = [] \<or> \<not> is_space (last (rstrip s))"
proof (cases "dropWhile is_space (rev s) = []")
  case True
  then show ?thesis by (simp add: rstrip_def)
next
  case False
  then show ?thesis
    using hd_dropWhile [OF False] by (simp add: rstrip_def last_rev)
qed

lemma lstrip_hd: "lstrip s = [] \<or> \<not> is_space (hd (lstrip s))"
  unfolding lstrip_def using hd_dropWhile [of is_space s] by blast

lemma lstrip_last: "lstrip s \<noteq> [] \<Longrightarrow> last (lstrip s) = last s"
  unfolding lstrip_def
  by (metis last_appendR takeWhile_dropWhile_id)

lemma strip_ends: "strip s = [] \<or> (\<not> is_space (hd (strip s)) \<and> \<not> is_space (last (strip s)))"
proof (cases "strip s = []")
  case True
  then show ?thesis by simp
next
  case False
  then have ne: "lstrip (rstrip s) \<noteq> []" "rstrip s \<noteq> []"
    by (auto simp: strip_def lstrip_def)
  have "\<not> is_space (hd (strip s))"
    using lstrip_hd [of "rstrip s"] ne by (simp add: strip_def)
  moreover have "\<not> is_space (last (strip s))"
    using lstrip_last [OF ne(1)] rstrip_last [of s] ne by (simp add: strip_def)
  ultimately show ?thesis by simp
qed

lemma strip_id: "s = [] \<or> (\<not> is_space (hd s) \<and> \<not> is_space (last s)) \<Longrightarrow> strip s = s"
  by (auto simp: strip_def rstrip_id lstrip_id)

lemma strip_idem: "strip (strip s) = strip s"
  using strip_ends [of s] by (intro strip_id) auto

lemma normalize_role_canonical:
  "normalize_role ''user'' = ''user''" "normalize_role ''assistant'' = ''assistant''"
  "normalize_role ''system'' = ''system''" "normalize_role ''tool'' = ''tool''"
  by (simp_all add: normalize_role_def ROLE_MAP_def strip_def lstrip_def rstrip_def lower_def lower_char_def is_space_def)

lemma role_map_range:
  "map_of ROLE_MAP k = Some r \<Longrightarrow> r \<in> {''user'', ''assistant'', ''system'', ''tool''}"
  by (auto simp: ROLE_MAP_def split: if_splits)

subsection \<open>The role normalizer\<close>

text \<open>
  C9. \<open>_normalize_role\<close> is defined on every string. It lower-cases and trims its
  argument and then reads the table: \<open>user\<close>, \<open>human\<close>, \<open>customer\<close> give
  \<open>user\<close>; \<open>assistant\<close>, \<open>ai\<close>, \<open>bot\<close>, \<open>agent\<close> give \<open>assistant\<close>;
  \<open>system\<close> gives \<open>system\<close>; \<open>tool\<close>, \<open>function\<close> give \<open>tool\<close>; any other
  label comes back lower-cased and trimmed. Normalizing twice is normalizing once, each of
  the four canonical roles is returned unchanged, and \<open>USER\<close>, \<open>User\<close>, \<open>user\<close> all
  give \<open>user\<close>.
\<close>

theorem normalize_role_spec:
  "normalize_role raw =
     (if strip (lower raw) \<in> {''user'', ''human'', ''customer''} then ''user''
      else if strip (lower raw) \<in> {''assistant'', ''ai'', ''bot'', ''agent''} then ''assistant''
      else if strip (lower raw) = ''system'' then ''system''
      else if strip (lower raw) \<in> {''tool'', ''function''} then ''tool''
      else strip (lower raw))
   \<and> normalize_role (normalize_role raw) = normalize_role raw
   \<and> (c \<in> {''user'', ''assistant'', ''system'', ''tool''} \<longrightarrow> normalize_role c = c)
   \<and> normalize_role ''USER'' = ''user''
   \<and> normalize_role ''User'' = ''user''
   \<and> normalize_role ''user'' = ''user''"
proof -
  have table: "normalize_role raw =
     (if strip (lower raw) \<in> {''user'', ''human'', ''customer''} then ''user''
      else if strip (lower raw) \<in> {''assistant'', ''ai'', ''bot'', ''agent''} then ''assistant''
      else if strip (lower raw) = ''system'' then ''system''
      else if strip (lower raw) \<in> {''tool'', ''function''} then ''tool''
      else strip (lower raw))"
    by (simp add: normalize_role_def ROLE_MAP_def)
  have fixed: "normalize_role c = c" if "c \<in> {''user'', ''assistant'', ''system'', ''tool''}" for c
    using that normalize_role_canonical by auto
  have idem: "normalize_role (normalize_role raw) = normalize_role raw"
  proof (cases "map_of ROLE_MAP (strip (lower raw))")
    case None
    then have "normalize_role raw = strip (lower raw)"
      by (simp add: normalize_role_def)
    moreover have "strip (lower (strip (lower raw))) = strip (lower raw)"
      by (simp add: strip_lower [symmetric] lower_idem strip_idem)
    ultimately show ?thesis
      using None by (simp add: normalize_role_def)
  next
    case (Some r)
    then have "normalize_role raw = r"
      by (simp add: normalize_role_def)
    then show ?thesis
      using fixed [OF role_map_range [OF Some]] by simp
  qed
  have ex: "normalize_role ''USER'' = ''user''" "normalize_role ''User'' = ''user''"
    by code_simp+
  show ?thesis
    using table idem fixed ex normalize_role_canonical(1) by blast
qed

theorem normalize_role_spec_witness:
  "normalize_role ''  Human '' = ''user'' \<and> normalize_role ''BOT'' = ''assistant''
   \<and> normalize_role ''Function'' = ''tool'' \<and> normalize_role '' Wizard'' = ''wizard''
   \<and> normalize_role (normalize_role '' Wizard'') = normalize_role '' Wizard''
   \<and> normalize_role ''assistant'' = ''assistant''"
proof -
  have ev: "strip (lower ''  Human '') = ''human''" "strip (lower ''BOT'') = ''bot''"
    "strip (lower ''Function'') = ''function''" "strip (lower '' Wizard'') = ''wizard''"
    by code_simp+
  have "normalize_role ''  Human '' = ''user''"
    using normalize_role_spec [of "''  Human ''" "''assistant''"] by (simp add: ev)
  moreover have "normalize_role ''BOT'' = ''assistant''"
    using normalize_role_spec [of "''BOT''" "''assistant''"] by (simp add: ev)
  moreover have "normalize_role ''Function'' = ''tool''"
    using normalize_role_spec [of "''Function''" "''assistant''"] by (simp add: ev)
  moreover have "normalize_role '' Wizard'' = ''wizard''"
    using normalize_role_spec [of "'' Wizard''" "''assistant''"] by (simp add: ev)
  moreover have "normalize_role (normalize_role '' Wizard'') = normalize_role '' Wizard''"
    using normalize_role_spec [of "'' Wizard''" "''assistant''"] by blast
  moreover have "normalize_role ''assistant'' = ''assistant''"
    using normalize_role_spec [of "''BOT''" "''assistant''"] by blast
  ultimately show ?thesis by blast
qed

subsection \<open>Content of the emitted messages\<close>

lemma text_pairs_content: "m \<in> set (text_pairs parts) \<Longrightarrow> content m \<noteq> []"
  by (induction parts rule: text_pairs.induct) (auto split: if_splits)

lemma nanobot_pairs_content: "m \<in> set (nanobot_pairs parts) \<Longrightarrow> content m \<noteq> []"
  by (induction parts rule: nanobot_pairs.induct) (auto simp: Let_def split: if_splits)

lemma parse_text_content: "m \<in> set (parse_text text) \<Longrightarrow> content m \<noteq> []"
  by (auto simp: parse_text_def Let_def text_pairs_content split: if_splits)

lemma parse_nanobot_content: "m \<in> set (parse_nanobot text) \<Longrightarrow> content m \<noteq> []"
  by (auto simp: parse_nanobot_def nanobot_sections_def nanobot_pairs_content parse_text_content
      split: if_splits)

text \<open>
  C3, as amended. Every message that one of the two narrative parsers emits,
  \<open>parse_text\<close> or \<open>parse_nanobot\<close>, has a content that is not empty: a span that is
  empty after trimming is dropped. The claim as stated covers all four parsers; the
  counterexample below is a message with empty content from \<open>parse_json\<close>, which keeps
  every element, as \<open>parse_jsonl\<close> keeps every mapping line.
\<close>

theorem narrative_content_nonempty:
  "(\<forall>m \<in> set (parse_text text). content m \<noteq> [])
   \<and> (\<forall>m \<in> set (parse_nanobot text). content m \<noteq> [])"
  using parse_text_content parse_nanobot_content by blast

theorem narrative_content_nonempty_witness:
  "parse_text ''User:\<newline>Assistant: hi'' = [\<lparr>role = ''assistant'', content = ''hi'', metadata = []\<rparr>]
   \<and> list_all (\<lambda>m. content m \<noteq> []) (parse_text ''User:\<newline>Assistant: hi'')
   \<and> parse_nanobot ''## Human\<newline>\<newline>## AI\<newline>ok\<newline>---''
       = [\<lparr>role = ''assistant'', content = ''ok'', metadata = []\<rparr>]
   \<and> list_all (\<lambda>m. content m \<noteq> []) (parse_nanobot ''## Human\<newline>\<newline>## AI\<newline>ok\<newline>---'')"
proof -
  have a: "parse_text ''User:\<newline>Assistant: hi'' = [\<lparr>role = ''assistant'', content = ''hi'', metadata = []\<rparr>]"
    by code_simp
  have b: "parse_nanobot ''## Human\<newline>\<newline>## AI\<newline>ok\<newline>---''
       = [\<lparr>role = ''assistant'', content = ''ok'', metadata = []\<rparr>]"
    by code_simp
  show ?thesis
    using a b narrative_content_nonempty [of "''User:\<newline>Assistant: hi''"]
      narrative_content_nonempty [of "''## Human\<newline>\<newline>## AI\<newline>ok\<newline>---''"]
    unfolding list_all_iff by blast
qed

theorem structured_empty_content_counterexample:
  \<open>parse_json loads_ex str_ex ''[{"role":"user","content":""}]''
     = Inr [\<lparr>role = ''user'', content = [], metadata = []\<rparr>]\<close>
  by code_simp

subsection \<open>Outcomes of \<open>parse_session\<close>\<close>

lemma strip_Nil: "strip [] = []"
  by (simp add: strip_def lstrip_def rstrip_def)

lemma parse_session_blank:
  "strip text = [] \<Longrightarrow> parse_session loads pystr text src = Inl (ParseError ''Empty session log'')"
  by (simp add: parse_session_def)

lemma parse_session_error:
  "strip text \<noteq> [] \<Longrightarrow> run_parser loads pystr (detect_format loads text) text = Inl e
   \<Longrightarrow> parse_session loads pystr text src = Inl e"
  by (auto simp: parse_session_def Let_def strip_Nil)

lemma parse_session_no_messages:
  "strip text \<noteq> [] \<Longrightarrow> run_parser loads pystr (detect_format loads text) text = Inr []
   \<Longrightarrow> parse_session loads pystr text src =
       Inl (ParseError (''No messages found in session log (detected format: ''
                         @ detect_format loads text @ '')''))"
  by (auto simp: parse_session_def Let_def strip_Nil)

lemma parse_session_ok:
  "strip text \<noteq> [] \<Longrightarrow> run_parser loads pystr (detect_format loads text) text = Inr msgs
   \<Longrightarrow> msgs \<noteq> []
   \<Longrightarrow> parse_session loads pystr text src =
       Inr \<lparr>messages = msgs, source = src, format_detected = detect_format loads text\<rparr>"
  by (auto simp: parse_session_def Let_def strip_Nil)

text \<open>
  C1, as amended. \<open>parse_session\<close> never returns a session without messages. It fails
  with a \<open>ParseError\<close> exactly when the text is empty or white space only, or the
  selected parser itself raises a \<open>ParseError\<close>, or the selected parser returns no
  message. For blank text the message is \<open>Empty session log\<close>; an error of the parser is
  passed on unchanged; when no message is found the message ends with the detected format
  tag in brackets. Otherwise the session holds the parser's messages, the source label and
  the tag. The claim as stated leaves out the errors of the parsers: the counterexample is
  a text that is not blank, for which \<open>parse_json\<close> raises on the second item, and the
  message does not name the tag.
\<close>

theorem parse_session_outcomes:
  "(\<forall>s. parse_session loads pystr text src = Inr s \<longrightarrow> messages s \<noteq> [])
   \<and> ((\<exists>msg. parse_session loads pystr text src = Inl (ParseError msg)) \<longleftrightarrow>
        strip text = []
        \<or> (\<exists>msg. run_parser loads pystr (detect_format loads text) text = Inl (ParseError msg))
        \<or> run_parser loads pystr (detect_format loads text) text = Inr [])
   \<and> (strip text = [] \<longrightarrow>
        parse_session loads pystr text src = Inl (ParseError ''Empty session log''))
   \<and> (\<forall>e. strip text \<noteq> [] \<and> run_parser loads pystr (detect_format loads text) text = Inl e \<longrightarrow>
        parse_session loads pystr text src = Inl e)
   \<and> (strip text \<noteq> [] \<and> run_parser loads pystr (detect_format loads text) text = Inr [] \<longrightarrow>
        parse_session loads pystr text src =
          Inl (ParseError (''No messages found in session log (detected format: ''
                            @ detect_format loads text @ '')'')))
   \<and> (\<forall>msgs. strip text \<noteq> [] \<and> msgs \<noteq> []
          \<and> run_parser loads pystr (detect_format loads text) text = Inr msgs \<longrightarrow>
        parse_session loads pystr text src =
          Inr \<lparr>messages = msgs, source = src, format_detected = detect_format loads text\<rparr>)"
proof -
  have nonempty: "\<forall>s. parse_session loads pystr text src = Inr s \<longrightarrow> messages s \<noteq> []"
    by (auto simp: parse_session_def Let_def split: if_splits sum.splits)
  have iff: "(\<exists>msg. parse_session loads pystr text src = Inl (ParseError msg)) \<longleftrightarrow>
        strip text = []
        \<or> (\<exists>msg. run_parser loads pystr (detect_format loads text) text = Inl (ParseError msg))
        \<or> run_parser loads pystr (detect_format loads text) text = Inr []"
  proof (cases "strip text = []")
    case True
    then show ?thesis by (simp add: parse_session_blank)
  next
    case False
    show ?thesis
    proof (cases "run_parser loads pystr (detect_format loads text) text")
      case (Inl e)
      then show ?thesis using False by (simp add: parse_session_error)
    next
      case (Inr msgs)
      then show ?thesis
        using False parse_session_no_messages [of "text" loads pystr src]
          parse_session_ok [of "text" loads pystr msgs src]
        by (cases "msgs = []") auto
    qed
  qed
  have blank: "strip text = [] \<longrightarrow>
        parse_session loads pystr text src = Inl (ParseError ''Empty session log'')"
    by (simp add: parse_session_blank)
  have err: "\<forall>e. strip text \<noteq> [] \<and> run_parser loads pystr (detect_format loads text) text = Inl e \<longrightarrow>
        parse_session loads pystr text src = Inl e"
    by (simp add: parse_session_error)
  have none: "strip text \<noteq> [] \<and> run_parser loads pystr (detect_format loads text) text = Inr [] \<longrightarrow>
        parse_session loads pystr text src =
          Inl (ParseError (''No messages found in session log (detected format: ''
                            @ detect_format loads text @ '')''))"
    by (simp add: parse_session_no_messages)
  have ok: "\<forall>msgs. strip text \<noteq> [] \<and> msgs \<noteq> []
          \<and> run_parser loads pystr (detect_format loads text) text = Inr msgs \<longrightarrow>
        parse_session loads pystr text src =
          Inr \<lparr>messages = msgs, source = src, format_detected = detect_format loads text\<rparr>"
    by (simp add: parse_session_ok)
  show ?thesis
    by (intro conjI) (fact nonempty iff blank err none ok)+
qed

theorem parse_session_outcomes_witness:
  \<open>parse_session loads_ex str_ex ''User:'' ''stdin''
     = Inl (ParseError ''No messages found in session log (detected format: text)'')
   \<and> parse_session loads_ex str_ex ''  '' ''stdin'' = Inl (ParseError ''Empty session log'')
   \<and> parse_session loads_ex str_ex ''[{"role":"user","content":"hi"},{"role":"bot","content":"hello"}]'' ''stdin''
     = Inr \<lparr>messages = [\<lparr>role = ''user'', content = ''hi'', metadata = []\<rparr>,
                         \<lparr>role = ''assistant'', content = ''hello'', metadata = []\<rparr>],
            source = ''stdin'', format_detected = ''json''\<rparr>\<close>
proof -
  have a: "strip ''User:'' \<noteq> []" "detect_format loads_ex ''User:'' = ''text''"
    "run_parser loads_ex str_ex ''text'' ''User:'' = Inr []"
    by code_simp+
  have b: "strip ''  '' = []"
    by code_simp
  have c: \<open>strip ''[{"role":"user","content":"hi"},{"role":"bot","content":"hello"}]'' \<noteq> []\<close>
    \<open>detect_format loads_ex ''[{"role":"user","content":"hi"},{"role":"bot","content":"hello"}]'' = ''json''\<close>
    \<open>run_parser loads_ex str_ex ''json'' ''[{"role":"user","content":"hi"},{"role":"bot","content":"hello"}]''
       = Inr [\<lparr>role = ''user'', content = ''hi'', metadata = []\<rparr>,
              \<lparr>role = ''assistant'', content = ''hello'', metadata = []\<rparr>]\<close>
    by code_simp+
  show ?thesis
    using parse_session_outcomes [of loads_ex str_ex "''User:''" "''stdin''"]
      parse_session_outcomes [of loads_ex str_ex "''  ''" "''stdin''"]
      parse_session_outcomes [of loads_ex str_ex
        \<open>''[{"role":"user","content":"hi"},{"role":"bot","content":"hello"}]''\<close> "''stdin''"]
    by (simp add: a b c)
qed

theorem parse_session_parser_error_counterexample:
  \<open>parse_session loads_ex str_ex ''[{"role":"user","content":"hi"}, 5]'' ''stdin''
     = Inl (ParseError ''Item 1 is not a JSON object'')
   \<and> strip ''[{"role":"user","content":"hi"}, 5]'' \<noteq> []
   \<and> detect_format loads_ex ''[{"role":"user","content":"hi"}, 5]'' = ''json''
   \<and> run_parser loads_ex str_ex ''json'' ''[{"role":"user","content":"hi"}, 5]'' \<noteq> Inr []
   \<and> \<not> contains ''Item 1 is not a JSON object'' ''json''\<close>
  by code_simp

subsection \<open>The marker-narrative scenario\<close>

text \<open>
  C6. The text with the metadata line \<open>session_id: 42\<close>, a section \<open>## Human\<close> with
  body \<open>Do X\<close>, a section \<open>## Assistant\<close> with body \<open>Done\<close> and a closing line
  \<open>---\<close> is detected as \<open>nanobot\<close> and parsed into two messages, \<open>user\<close> with
  content \<open>Do X\<close> and \<open>assistant\<close> with content \<open>Done\<close>: the header line, the
  separator and the surrounding white space are gone. This holds for every decoder that
  rejects the first line, as \<open>json.loads\<close> does.
\<close>

theorem nanobot_scenario:
  assumes "loads ''session_id: 42'' = Inl e"
  shows "parse_session loads pystr
           ''session_id: 42\<newline>## Human\<newline>Do X\<newline>\<newline>## Assistant\<newline>Done\<newline>---\<newline>'' src
         = Inr \<lparr>messages = [\<lparr>role = ''user'', content = ''Do X'', metadata = []\<rparr>,
                             \<lparr>role = ''assistant'', content = ''Done'', metadata = []\<rparr>],
                source = src, format_detected = ''nanobot''\<rparr>"
proof -
  let ?T = "''session_id: 42\<newline>## Human\<newline>Do X\<newline>\<newline>## Assistant\<newline>Done\<newline>---\<newline>''"
  let ?S = "''session_id: 42\<newline>## Human\<newline>Do X\<newline>\<newline>## Assistant\<newline>Done\<newline>---''"
  have st: "strip ?T = ?S"
    by code_simp
  have first: "take 5 (split_max 5 ?S) = [''session_id: 42'', ''## Human'', ''Do X'', [], ''## Assistant'']"
    by code_simp
  have line: "strip ''session_id: 42'' = ''session_id: 42''"
    by code_simp
  have arr: "\<not> json_array_check loads ?S"
    by (simp add: json_array_check_def)
  have cnt: "jsonl_count loads 0 (take 5 (split_max 5 ?S)) = 0"
    unfolding first using assms by (simp add: line)
  have nb: "is_nanobot_format ?S"
    by code_simp
  have fmt: "detect_format loads ?T = ''nanobot''"
    unfolding detect_format_def Let_def st using arr cnt nb by simp
  have msgs: "parse_nanobot ?T = [\<lparr>role = ''user'', content = ''Do X'', metadata = []\<rparr>,
                             \<lparr>role = ''assistant'', content = ''Done'', metadata = []\<rparr>]"
    by code_simp
  show ?thesis
    unfolding parse_session_def Let_def fmt st by (simp add: run_parser_def msgs)
qed

theorem nanobot_scenario_witness:
  "loads_ex ''session_id: 42'' = Inl ''JSONDecodeError''
   \<and> parse_session loads_ex str_ex
           ''session_id: 42\<newline>## Human\<newline>Do X\<newline>\<newline>## Assistant\<newline>Done\<newline>---\<newline>'' ''session.md''
         = Inr \<lparr>messages = [\<lparr>role = ''user'', content = ''Do X'', metadata = []\<rparr>,
                             \<lparr>role = ''assistant'', content = ''Done'', metadata = []\<rparr>],
                source = ''session.md'', format_detected = ''nanobot''\<rparr>"
proof -
  have h: "loads_ex ''session_id: 42'' = Inl ''JSONDecodeError''"
    by code_simp
  show ?thesis
    using h nanobot_scenario [of loads_ex "''JSONDecodeError''" str_ex "''session.md''"] by simp
qed

subsection \<open>Splitting at markers\<close>


lemma re_split_no_match:
  "\<forall>t \<in> set (bol_suffixes bol s). m t = None \<Longrightarrow> re_split m bol s = [s]"
proof (induction s arbitrary: bol)
  case Nil
  then show ?case by simp
next
  case (Cons c cs)
  then have "re_split m (c = nl) cs = [cs]"
    by simp
  moreover have "(if bol then m (c # cs) else None) = None"
    using Cons.prems by simp
  ultimately show ?case
    by simp
qed

subsection \<open>Fallback of the marker-narrative parser\<close>

text \<open>
  C7. When the walk over the \<open>##\<close> sections of \<open>parse_nanobot\<close> yields no message, and
  so in particular when no line of the body is a section marker, the result is that of
  \<open>parse_text\<close> on the original text, header included. When the walk yields a message,
  the result is the walk's and \<open>parse_text\<close> is not used. There is no other fallback:
  each tag selects its own parser, and an error of \<open>parse_json\<close> or \<open>parse_jsonl\<close>
  leaves \<open>parse_session\<close> as it is.
\<close>

theorem nanobot_fallback:
  "(nanobot_sections text = [] \<longrightarrow> parse_nanobot text = parse_text text)
   \<and> ((\<forall>t \<in> set (line_starts (nanobot_body text)). section_match t = None) \<longrightarrow>
        parse_nanobot text = parse_text text)
   \<and> (nanobot_sections text \<noteq> [] \<longrightarrow> parse_nanobot text = nanobot_sections text)
   \<and> run_parser loads pystr ''json'' text = parse_json loads pystr text
   \<and> run_parser loads pystr ''jsonl'' text = parse_jsonl loads pystr text
   \<and> run_parser loads pystr ''nanobot'' text = Inr (parse_nanobot text)
   \<and> run_parser loads pystr ''text'' text = Inr (parse_text text)
   \<and> (strip text \<noteq> [] \<and> detect_format loads text = ''json'' \<and> parse_json loads pystr text = Inl e
        \<longrightarrow> parse_session loads pystr text src = Inl e)
   \<and> (strip text \<noteq> [] \<and> detect_format loads text = ''jsonl'' \<and> parse_jsonl loads pystr text = Inl e
        \<longrightarrow> parse_session loads pystr text src = Inl e)"
proof -
  have nomark: "parse_nanobot text = parse_text text"
    if "\<forall>t \<in> set (line_starts (nanobot_body text)). section_match t = None"
  proof -
    have "re_split section_match True (nanobot_body text) = [nanobot_body text]"
      using that by (simp add: re_split_no_match line_starts_def)
    then have "nanobot_sections text = []"
      by (simp add: nanobot_sections_def)
    then show ?thesis
      by (simp add: parse_nanobot_def)
  qed
  have disp: "run_parser loads pystr ''json'' text = parse_json loads pystr text"
    "run_parser loads pystr ''jsonl'' text = parse_jsonl loads pystr text"
    "run_parser loads pystr ''nanobot'' text = Inr (parse_nanobot text)"
    "run_parser loads pystr ''text'' text = Inr (parse_text text)"
    by (simp_all add: run_parser_def)
  have errs: "strip text \<noteq> [] \<and> detect_format loads text = ''json'' \<and> parse_json loads pystr text = Inl e
        \<longrightarrow> parse_session loads pystr text src = Inl e"
    "strip text \<noteq> [] \<and> detect_format loads text = ''jsonl'' \<and> parse_jsonl loads pystr text = Inl e
        \<longrightarrow> parse_session loads pystr text src = Inl e"
    using parse_session_error [of "text" loads pystr e src] disp by auto
  show ?thesis
    using nomark disp errs by (simp add: parse_nanobot_def)
qed

theorem nanobot_fallback_witness:
  "list_all (\<lambda>t. section_match t = None)
     (line_starts (nanobot_body ''agent: x\<newline>---\<newline>User: hello''))
   \<and> nanobot_body ''agent: x\<newline>---\<newline>User: hello'' = ''---\<newline>User: hello''
   \<and> parse_nanobot ''agent: x\<newline>---\<newline>User: hello'' = parse_text ''agent: x\<newline>---\<newline>User: hello''
   \<and> parse_text ''agent: x\<newline>---\<newline>User: hello''
       = [\<lparr>role = ''assistant'', content = ''x\<newline>---'', metadata = []\<rparr>,
          \<lparr>role = ''user'', content = ''hello'', metadata = []\<rparr>]
   \<and> nanobot_sections ''## Human\<newline>hi'' \<noteq> []
   \<and> parse_nanobot ''## Human\<newline>hi'' = nanobot_sections ''## Human\<newline>hi''"
proof -
  have a: "\<forall>t \<in> set (line_starts (nanobot_body ''agent: x\<newline>---\<newline>User: hello'')). section_match t = None"
    by code_simp
  have b: "nanobot_body ''agent: x\<newline>---\<newline>User: hello'' = ''---\<newline>User: hello''"
    by code_simp
  have c: "parse_text ''agent: x\<newline>---\<newline>User: hello''
       = [\<lparr>role = ''assistant'', content = ''x\<newline>---'', metadata = []\<rparr>,
          \<lparr>role = ''user'', content = ''hello'', metadata = []\<rparr>]"
    by code_simp
  have d: "nanobot_sections ''## Human\<newline>hi'' \<noteq> []"
    by code_simp
  show ?thesis
    using a b c d
      nanobot_fallback [of "''agent: x\<newline>---\<newline>User: hello''"]
      nanobot_fallback [of "''## Human\<newline>hi''"]
    unfolding list_all_iff by blast
qed

subsection \<open>Detection of the line-delimited format\<close>

lemma split_nl_not_Nil: "split_nl s \<noteq> []"
  by (induction s) (auto split: list.splits)

lemma split_max_not_Nil: "split_max n s \<noteq> []"
  by (induction n s rule: split_max.induct) (auto split: list.splits)

lemma take_split_max: "take n (split_max n s) = take n (split_nl s)"
proof (induction s arbitrary: n)
  case Nil
  then show ?case by simp
next
  case (Cons c cs)
  show ?case
  proof (cases n)
    case 0
    then show ?thesis by simp
  next
    case (Suc k)
    show ?thesis
    proof (cases "c = nl")
      case True
      then show ?thesis using Suc Cons.IH [of k] by simp
    next
      case False
      obtain l ls where a: "split_max (Suc k) cs = l # ls"
        using split_max_not_Nil [of "Suc k" cs] by (cases "split_max (Suc k) cs") auto
      obtain l' ls' where b: "split_nl cs = l' # ls'"
        using split_nl_not_Nil [of cs] by (cases "split_nl cs") auto
      have "l = l' \<and> take k ls = take k ls'"
        using Cons.IH [of "Suc k"] a b by simp
      then show ?thesis
        using False Suc a b by simp
    qed
  qed
qed

lemma jsonl_count_scanned:
  "jsonl_count loads cnt ls
     = cnt + length (filter (mapping_line loads) (scanned_lines loads ls))"
proof (induction ls arbitrary: cnt)
  case Nil
  then show ?case by (simp add: scanned_lines_def)
next
  case (Cons l ls)
  show ?case
  proof (cases "strip l = []")
    case True
    then show ?thesis
      using Cons.IH [of cnt] by (simp add: scanned_lines_def blank_def mapping_line_def)
  next
    case False
    show ?thesis
    proof (cases "loads (strip l)")
      case (Inl e)
      then show ?thesis
        using False by (simp add: scanned_lines_def blank_def decodes_def)
    next
      case (Inr obj)
      then show ?thesis
        using False Cons.IH [of cnt] Cons.IH [of "cnt + 1"]
        by (cases obj) (simp_all add: scanned_lines_def blank_def decodes_def mapping_line_def)
    qed
  qed
qed

lemma detect_format_jsonl_iff:
  "detect_format loads text = ''jsonl'' \<longleftrightarrow>
     \<not> json_array_check loads (strip text) \<and> jsonl_rule loads text"
  by (simp add: detect_format_def Let_def jsonl_rule_def first_lines_def take_split_max
      jsonl_count_scanned)

text \<open>
  C4, as amended. When the structured-array check does not match, \<open>detect_format\<close>
  answers \<open>jsonl\<close> exactly when, going through the first five lines of the stripped text
  in order, blank lines included and passed over, up to the first line that does not
  decode, at least two lines decode to mappings. So a text is \<open>jsonl\<close> when each of its
  first five lines is blank or decodes and two of them decode to mappings. The claim as
  stated counts the first five lines that are not blank and lets one failure reject the
  format: in the first text of the counterexample the two mappings are the only lines
  that are not blank, but the second is the sixth line, and the format is \<open>text\<close>; in the
  second text the third line does not decode, and the format is \<open>jsonl\<close>.
\<close>

theorem detect_jsonl_rule:
  "(\<not> json_array_check loads (strip text) \<longrightarrow>
      (detect_format loads text = ''jsonl'' \<longleftrightarrow> jsonl_rule loads text))
   \<and> (\<not> json_array_check loads (strip text)
        \<and> (\<forall>l \<in> set (first_lines text). blank l \<or> decodes loads l)
        \<and> 2 \<le> length (filter (mapping_line loads) (first_lines text))
      \<longrightarrow> detect_format loads text = ''jsonl'')"
proof -
  have "scanned_lines loads (first_lines text) = first_lines text"
    if "\<forall>l \<in> set (first_lines text). blank l \<or> decodes loads l"
    using that unfolding scanned_lines_def by (simp add: takeWhile_eq_all_conv)
  then show ?thesis
    by (auto simp: detect_format_jsonl_iff jsonl_rule_def)
qed

theorem detect_jsonl_rule_witness:
  \<open>\<not> json_array_check loads_ex (strip ''{"role":"user","content":"a"}\<newline>\<newline>[1]\<newline>{"role":"tool","content":"c"}'')
   \<and> list_all (\<lambda>l. blank l \<or> decodes loads_ex l)
         (first_lines ''{"role":"user","content":"a"}\<newline>\<newline>[1]\<newline>{"role":"tool","content":"c"}'')
   \<and> jsonl_rule loads_ex ''{"role":"user","content":"a"}\<newline>\<newline>[1]\<newline>{"role":"tool","content":"c"}''
   \<and> detect_format loads_ex ''{"role":"user","content":"a"}\<newline>\<newline>[1]\<newline>{"role":"tool","content":"c"}'' = ''jsonl''\<close>
proof -
  let ?T = \<open>''{"role":"user","content":"a"}\<newline>\<newline>[1]\<newline>{"role":"tool","content":"c"}''\<close>
  have a: "\<not> json_array_check loads_ex (strip ?T)"
    by code_simp
  have b: "\<forall>l \<in> set (first_lines ?T). blank l \<or> decodes loads_ex l"
    by code_simp
  have c: "2 \<le> length (filter (mapping_line loads_ex) (first_lines ?T))"
    by code_simp
  show ?thesis
    using a b c detect_jsonl_rule [of loads_ex ?T] unfolding list_all_iff by blast
qed

theorem detect_jsonl_counterexample:
  \<open>2 \<le> length (filter (mapping_line loads_ex) (first_nonblank_lines ''{}\<newline>\<newline>\<newline>\<newline>\<newline>{}''))
   \<and> \<not> json_array_check loads_ex (strip ''{}\<newline>\<newline>\<newline>\<newline>\<newline>{}'')
   \<and> detect_format loads_ex ''{}\<newline>\<newline>\<newline>\<newline>\<newline>{}'' = ''text''
   \<and> \<not> decodes loads_ex ''x''
   \<and> first_lines ''{}\<newline>{}\<newline>x'' = [''{}'', ''{}'', ''x'']
   \<and> detect_format loads_ex ''{}\<newline>{}\<newline>x'' = ''jsonl''\<close>
  by code_simp

subsection \<open>The structured-array format\<close>

lemma strings_of_strs: "list_all is_str vs \<Longrightarrow> \<exists>ss. strings_of vs = Inr ss"
proof (induction vs)
  case Nil
  then show ?case by simp
next
  case (Cons v vs)
  then obtain s where "v = JStr s"
    by (cases v) auto
  then show ?case
    using Cons by auto
qed

lemma role_content_mapping_message:
  assumes "role_content_mapping item"
  shows "\<exists>d r c. item = JObj d \<and> normalize_role_of (dict_get d ''role'' (JStr ''unknown'')) = Inr r
           \<and> json_content pystr (dict_get d ''content'' (JStr [])) = Inr c
           \<and> message_for pystr item \<lparr>role = r, content = c, metadata = meta_of d\<rparr>"
proof -
  obtain d where d: "item = JObj d"
    using assms by (cases item) (auto simp: role_content_mapping_def)
  obtain r where r: "map_of d ''role'' = Some (JStr r)"
    using assms d by (auto simp: role_content_mapping_def split: option.splits json.splits)
  obtain c where c: "map_of d ''content'' = Some c"
    using assms d r by (auto simp: role_content_mapping_def split: option.splits json.splits)
  have "\<exists>t. json_content pystr c = Inr t"
  proof (cases c)
    case (JArr parts)
    then have "list_all is_str (text_parts parts)"
      using assms d r c by (simp add: role_content_mapping_def)
    then show ?thesis
      using JArr strings_of_strs [of "text_parts parts"] by auto
  qed simp_all
  then obtain t where t: "json_content pystr c = Inr t" ..
  show ?thesis
    using d r c t by (simp add: dict_get_def message_for_def)
qed

lemma json_items_all:
  "list_all role_content_mapping items \<Longrightarrow>
     \<exists>ms. json_items pystr i items = Inr ms \<and> list_all2 (message_for pystr) items ms"
proof (induction items arbitrary: i)
  case Nil
  then show ?case by simp
next
  case (Cons item items)
  obtain d r c where h: "item = JObj d"
    "normalize_role_of (dict_get d ''role'' (JStr ''unknown'')) = Inr r"
    "json_content pystr (dict_get d ''content'' (JStr [])) = Inr c"
    "message_for pystr item \<lparr>role = r, content = c, metadata = meta_of d\<rparr>"
    using role_content_mapping_message [of item pystr] Cons.prems by auto
  obtain ms where ms: "json_items pystr (Suc i) items = Inr ms"
    "list_all2 (message_for pystr) items ms"
    using Cons.IH [of "Suc i"] Cons.prems by auto
  show ?case
    using h ms by simp
qed

text \<open>
  C2, as amended. Let the stripped text begin with \<open>[\<close> and decode to an array with at
  least one element, each element a mapping with a \<open>role\<close> that is a string and a
  \<open>content\<close> (a content that is a list having only strings among its text parts). Then
  \<open>detect_format\<close> answers \<open>json\<close>, and \<open>parse_json\<close> returns one message for each
  element, in the order of the array, whether the content is empty or not. The claim as
  stated covers the array without elements, which is not detected as \<open>json\<close>: the
  counterexample is the text \<open>[]\<close>, detected as \<open>text\<close>.
\<close>

theorem json_array_detect_and_parse:
  assumes "startswith (strip text) ''[''"
    and "loads (strip text) = Inr (JArr items)"
    and "items \<noteq> []"
    and "list_all role_content_mapping items"
  shows "detect_format loads text = ''json''
         \<and> (\<exists>ms. parse_json loads pystr text = Inr ms
               \<and> length ms = length items
               \<and> list_all2 (message_for pystr) items ms)"
proof -
  obtain first rest where items: "items = first # rest"
    using assms(3) by (cases items) auto
  then have "role_content_mapping first"
    using assms(4) by simp
  then obtain d where "first = JObj d" "dict_has d ''role''"
    by (cases first) (auto simp: role_content_mapping_def dict_has_def split: option.splits)
  then have "json_array_check loads (strip text)"
    using assms(1,2) items by (simp add: json_array_check_def)
  then have fmt: "detect_format loads text = ''json''"
    by (simp add: detect_format_def)
  obtain ms where ms: "json_items pystr 0 items = Inr ms" "list_all2 (message_for pystr) items ms"
    using json_items_all [OF assms(4), of pystr 0] by auto
  have "parse_json loads pystr text = Inr ms"
    using assms(2) ms(1) by (simp add: parse_json_def)
  then show ?thesis
    using fmt ms(2) list_all2_lengthD [OF ms(2)] by auto
qed

theorem json_array_detect_and_parse_witness:
  \<open>startswith (strip ''[{"role":"user","content":"hi"},{"role":"bot","content":""}]'') ''[''
   \<and> loads_ex (strip ''[{"role":"user","content":"hi"},{"role":"bot","content":""}]'')
       = Inr (JArr [JObj [(''role'', JStr ''user''), (''content'', JStr ''hi'')],
                    JObj [(''role'', JStr ''bot''), (''content'', JStr [])]])
   \<and> list_all role_content_mapping
         [JObj [(''role'', JStr ''user''), (''content'', JStr ''hi'')],
          JObj [(''role'', JStr ''bot''), (''content'', JStr [])]]
   \<and> detect_format loads_ex ''[{"role":"user","content":"hi"},{"role":"bot","content":""}]'' = ''json''
   \<and> parse_json loads_ex str_ex ''[{"role":"user","content":"hi"},{"role":"bot","content":""}]''
       = Inr [\<lparr>role = ''user'', content = ''hi'', metadata = []\<rparr>,
              \<lparr>role = ''assistant'', content = [], metadata = []\<rparr>]\<close>
proof -
  let ?T = \<open>''[{"role":"user","content":"hi"},{"role":"bot","content":""}]''\<close>
  let ?I = "[JObj [(''role'', JStr ''user''), (''content'', JStr ''hi'')],
             JObj [(''role'', JStr ''bot''), (''content'', JStr [])]]"
  have a: "startswith (strip ?T) ''[''"
    by code_simp
  have b: "loads_ex (strip ?T) = Inr (JArr ?I)"
    by code_simp
  have c: "?I \<noteq> []"
    by simp
  have d: "list_all role_content_mapping ?I"
    by code_simp
  have e: "parse_json loads_ex str_ex ?T
       = Inr [\<lparr>role = ''user'', content = ''hi'', metadata = []\<rparr>,
              \<lparr>role = ''assistant'', content = [], metadata = []\<rparr>]"
    by code_simp
  show ?thesis
    using a b c d e json_array_detect_and_parse [of ?T loads_ex ?I str_ex] by blast
qed

theorem json_empty_array_counterexample:
  "startswith (strip ''[]'') ''[''
   \<and> loads_ex (strip ''[]'') = Inr (JArr [])
   \<and> list_all role_content_mapping []
   \<and> detect_format loads_ex ''[]'' = ''text''"
  by code_simp

subsection \<open>Lines of a text and of the stripped text\<close>

lemma is_space_nl: "is_space nl"
  by (simp add: is_space_def nl_def)

lemma strip_all_space: "list_all is_space w \<Longrightarrow> strip w = []"
proof -
  assume "list_all is_space w"
  then have "dropWhile is_space (rev w) = []"
    by (simp add: list_all_iff)
  then have "rstrip w = []"
    by (simp only: rstrip_def rev.simps)
  then show ?thesis
    by (simp only: strip_def lstrip_def dropWhile.simps)
qed

lemma strip_append_space: "list_all is_space w \<Longrightarrow> strip (s @ w) = strip s"
proof -
  assume "list_all is_space w"
  then have "dropWhile is_space (rev w @ rev s) = dropWhile is_space (rev s)"
    by (simp add: dropWhile_append list_all_iff)
  then show ?thesis
    by (simp add: strip_def rstrip_def)
qed

lemma strip_Cons_space: "is_space c \<Longrightarrow> strip (c # s) = strip s"
proof (cases "list_all is_space s")
  case True
  assume "is_space c"
  then have "list_all is_space (c # s)" using True by simp
  then show ?thesis using True by (simp only: strip_all_space)
next
  case False
  assume c: "is_space c"
  from False have "dropWhile is_space (rev s) \<noteq> []"
    by (simp add: list_all_iff)
  then have "rstrip (c # s) = c # rstrip s"
    by (simp add: rstrip_def dropWhile_append)
  then show ?thesis
    using c by (simp add: strip_def lstrip_def)
qed

lemma strip_prepend_space: "list_all is_space w \<Longrightarrow> strip (w @ s) = strip s"
  by (induction w) (simp_all add: strip_Cons_space)

lemma split_nl_length: "length (split_nl s) = Suc (length (filter (\<lambda>c. c = nl) s))"
  by (induction s) (auto split: list.splits simp: split_nl_not_Nil)

lemma split_nl_all_space:
  "list_all is_space w \<Longrightarrow> l \<in> set (split_nl w) \<Longrightarrow> list_all is_space l"
proof (induction w arbitrary: l)
  case Nil
  then show ?case by simp
next
  case (Cons c w)
  then show ?case
    by (cases "split_nl w") (auto split: if_splits)
qed

lemma split_nl_append:
  "split_nl (a @ b) = butlast (split_nl a) @ [last (split_nl a) @ hd (split_nl b)] @ tl (split_nl b)"
proof (induction a)
  case Nil
  then show ?case using split_nl_not_Nil [of b] by simp
next
  case (Cons c a)
  show ?case
  proof (cases "split_nl a")
    case Nil
    then show ?thesis using split_nl_not_Nil [of a] by simp
  next
    case (Cons l ls)
    then show ?thesis
      using Cons.IH by (cases ls) (simp_all add: split_nl_not_Nil)
  qed
qed

lemma split_nl_append_space:
  assumes "list_all is_space w" and "i < length (split_nl a)"
  shows "i < length (split_nl (a @ w)) \<and> strip (split_nl (a @ w) ! i) = strip (split_nl a ! i)"
proof -
  let ?A = "split_nl a"
  have hd_sp: "list_all is_space (hd (split_nl w))"
    using split_nl_all_space [OF assms(1), of "hd (split_nl w)"] split_nl_not_Nil [of w]
    by simp
  have len: "length (butlast ?A) = length ?A - 1"
    by simp
  show ?thesis
  proof (cases "i < length ?A - 1")
    case True
    then show ?thesis
      by (simp add: split_nl_append nth_append nth_butlast)
  next
    case False
    then have i: "i = length ?A - 1"
      using assms(2) by simp
    then have "split_nl (a @ w) ! i = last ?A @ hd (split_nl w)"
      by (simp add: split_nl_append nth_append)
    moreover have "?A ! i = last ?A"
      using i split_nl_not_Nil [of a] by (simp add: last_conv_nth)
    ultimately show ?thesis
      using hd_sp i by (simp add: strip_append_space split_nl_append)
  qed
qed

lemma split_nl_prepend_space:
  assumes "list_all is_space w" and "i < length (split_nl s)"
  shows "i + length (filter (\<lambda>c. c = nl) w) < length (split_nl (w @ s))
         \<and> strip (split_nl (w @ s) ! (i + length (filter (\<lambda>c. c = nl) w))) = strip (split_nl s ! i)"
proof -
  let ?W = "split_nl w"
  let ?k = "length (filter (\<lambda>c. c = nl) w)"
  have k: "length (butlast ?W) = ?k"
    by (simp add: split_nl_length)
  have last_sp: "list_all is_space (last ?W)"
    using split_nl_all_space [OF assms(1), of "last ?W"] split_nl_not_Nil [of w]
    by simp
  have len: "length (split_nl (w @ s)) = ?k + length (split_nl s)"
    by (simp add: split_nl_length)
  show ?thesis
  proof (cases i)
    case 0
    then have "split_nl (w @ s) ! (i + ?k) = last ?W @ hd (split_nl s)"
      using k by (simp add: split_nl_append nth_append)
    then show ?thesis
      using 0 last_sp len assms(2) split_nl_not_Nil [of s]
      by (simp add: strip_prepend_space hd_conv_nth)
  next
    case (Suc j)
    then have "split_nl (w @ s) ! (i + ?k) = tl (split_nl s) ! j"
      using k by (simp add: split_nl_append nth_append)
    then show ?thesis
      using Suc len assms(2) by (simp add: nth_tl)
  qed
qed

lemma strip_decomp:
  assumes "strip s \<noteq> []"
  shows "\<exists>w. list_all is_space w \<and> s = takeWhile is_space s @ strip s @ w"
proof -
  let ?w = "rev (takeWhile is_space (rev s))"
  have a: "s = rstrip s @ ?w"
    unfolding rstrip_def
    by (metis rev_append rev_rev_ident takeWhile_dropWhile_id)
  have b: "rstrip s = takeWhile is_space (rstrip s) @ strip s"
    by (simp add: strip_def lstrip_def)
  have ne: "\<not> is_space (hd (strip s))"
    using strip_ends [of s] assms by simp
  have "takeWhile is_space (takeWhile is_space (rstrip s) @ strip s @ ?w)
        = takeWhile is_space (rstrip s)"
  proof -
    have "takeWhile is_space (strip s @ ?w) = []"
      using ne assms by (cases "strip s") simp_all
    moreover have "\<And>x. x \<in> set (takeWhile is_space (rstrip s)) \<Longrightarrow> is_space x"
      by (metis set_takeWhileD)
    ultimately show ?thesis
      by (simp add: takeWhile_append2)
  qed
  then have "takeWhile is_space s = takeWhile is_space (rstrip s)"
    using a b by (metis append.assoc)
  moreover have "list_all is_space ?w"
    by (simp add: list_all_iff) (metis set_takeWhileD)
  ultimately show ?thesis
    using a b by (metis append.assoc)
qed

lemma stripped_line:
  assumes "strip text \<noteq> []" and "i < length (split_nl (strip text))"
  shows "i + stripped_leading_lines text < length (split_nl text)
         \<and> strip (split_nl text ! (i + stripped_leading_lines text))
             = strip (split_nl (strip text) ! i)"
proof -
  obtain w where w: "list_all is_space w"
    "text = takeWhile is_space text @ strip text @ w"
    using strip_decomp [OF assms(1)] by blast
  let ?p = "takeWhile is_space text"
  have p: "list_all is_space ?p"
    by (simp add: list_all_iff) (metis set_takeWhileD)
  have 1: "i + stripped_leading_lines text < length (split_nl (?p @ strip text))
        \<and> strip (split_nl (?p @ strip text) ! (i + stripped_leading_lines text))
            = strip (split_nl (strip text) ! i)"
    using split_nl_prepend_space [OF p assms(2)] by (simp add: stripped_leading_lines_def)
  have 2: "i + stripped_leading_lines text < length (split_nl ((?p @ strip text) @ w))
        \<and> strip (split_nl ((?p @ strip text) @ w) ! (i + stripped_leading_lines text))
            = strip (split_nl (?p @ strip text) ! (i + stripped_leading_lines text))"
    using split_nl_append_space [OF w(1), of "i + stripped_leading_lines text" "?p @ strip text"] 1
    by blast
  have "(?p @ strip text) @ w = text"
    using w(2) by simp
  then show ?thesis
    using 1 2 by simp
qed

subsection \<open>The line-delimited parser\<close>

lemma normalize_role_of_error: "normalize_role_of v = Inl e \<Longrightarrow> e = AttributeError"
  by (cases v) auto

lemma jsonl_lines_parse_error:
  "jsonl_lines loads pystr k ls = Inl (ParseError msg) \<Longrightarrow>
     \<exists>i exc. i < length ls \<and> msg = ''Invalid JSON on line '' @ show_nat (k + i) @ '': '' @ exc
       \<and> \<not> blank (ls ! i) \<and> loads (strip (ls ! i)) = Inl exc"
proof (induction ls arbitrary: k)
  case Nil
  then show ?case by simp
next
  case (Cons l ls)
  have step: "\<exists>i exc. i < length (l # ls)
       \<and> msg = ''Invalid JSON on line '' @ show_nat (k + i) @ '': '' @ exc
       \<and> \<not> blank ((l # ls) ! i) \<and> loads (strip ((l # ls) ! i)) = Inl exc"
    if h: "jsonl_lines loads pystr (Suc k) ls = Inl (ParseError msg)"
  proof -
    obtain i exc where "i < length ls"
      "msg = ''Invalid JSON on line '' @ show_nat (Suc k + i) @ '': '' @ exc"
      "\<not> blank (ls ! i)" "loads (strip (ls ! i)) = Inl exc"
      using Cons.IH [OF h] by blast
    then show ?thesis
      by (intro exI [of _ "Suc i"] exI [of _ exc]) simp
  qed
  show ?case
  proof (cases "strip l = []")
    case True
    then show ?thesis using Cons.prems step by simp
  next
    case False
    show ?thesis
    proof (cases "loads (strip l)")
      case (Inl exc)
      then have "msg = ''Invalid JSON on line '' @ show_nat k @ '': '' @ exc"
        using Cons.prems False by simp
      then show ?thesis
        using False Inl by (intro exI [of _ 0] exI [of _ exc]) (simp add: blank_def)
    next
      case (Inr obj)
      show ?thesis
      proof (cases obj)
        case (JObj d)
        have "jsonl_lines loads pystr (Suc k) ls = Inl (ParseError msg)"
          using Cons.prems False Inr JObj
          by (auto split: sum.splits dest: normalize_role_of_error)
        then show ?thesis by (rule step)
      qed (use Cons.prems False Inr step in simp_all)
    qed
  qed
qed

lemma line_passes_step:
  assumes "line_passes loads l"
  shows "jsonl_lines loads pystr k (l # ls) = Inl e \<longleftrightarrow> jsonl_lines loads pystr (Suc k) ls = Inl e"
proof (cases "strip l = []")
  case True
  then show ?thesis by simp
next
  case False
  then obtain obj where obj: "loads (strip l) = Inr obj"
    using assms by (cases "loads (strip l)") (auto simp: line_passes_def blank_def)
  show ?thesis
  proof (cases obj)
    case (JObj d)
    then obtain r where "dict_get d ''role'' (JStr ''unknown'') = JStr r"
      using assms obj False
      by (cases "dict_get d ''role'' (JStr ''unknown'')") (auto simp: line_passes_def blank_def)
    then show ?thesis
      using False obj JObj by (auto split: sum.splits)
  qed (use False obj in simp_all)
qed

lemma jsonl_lines_first_malformed:
  "i < length ls \<Longrightarrow> \<forall>j < i. line_passes loads (ls ! j) \<Longrightarrow> \<not> blank (ls ! i)
   \<Longrightarrow> loads (strip (ls ! i)) = Inl exc
   \<Longrightarrow> jsonl_lines loads pystr k ls
       = Inl (ParseError (''Invalid JSON on line '' @ show_nat (k + i) @ '': '' @ exc))"
proof (induction ls arbitrary: k i)
  case Nil
  then show ?case by simp
next
  case (Cons l ls)
  show ?case
  proof (cases i)
    case 0
    then show ?thesis
      using Cons.prems by (simp add: blank_def)
  next
    case (Suc j)
    have "line_passes loads l"
      using Cons.prems(2) Suc by auto
    moreover have "jsonl_lines loads pystr (Suc k) ls
       = Inl (ParseError (''Invalid JSON on line '' @ show_nat (Suc k + j) @ '': '' @ exc))"
      using Cons.prems Suc by (intro Cons.IH) auto
    ultimately show ?thesis
      using Suc line_passes_step [of loads l pystr k ls] by simp
  qed
qed

text \<open>
  C10. The line number in the \<open>ParseError\<close> of \<open>parse_jsonl\<close> is the position, counted
  from 1, of the malformed line among the lines of the stripped text. The first line of
  the stripped text that is not blank and does not decode, every line before it passing
  without an exception, is reported with that position; and every \<open>ParseError\<close> of
  \<open>parse_jsonl\<close> names such a line. In the original text the same line stands further down
  by the number of line feeds in the white space stripped at the front: the number
  reported is smaller than the position in the original text by the count of the lines
  stripped there.
\<close>

theorem jsonl_error_line_number:
  "(\<forall>i exc. i < length (split_nl (strip text))
       \<and> (\<forall>j < i. line_passes loads (split_nl (strip text) ! j))
       \<and> \<not> blank (split_nl (strip text) ! i)
       \<and> loads (strip (split_nl (strip text) ! i)) = Inl exc
     \<longrightarrow> parse_jsonl loads pystr text
           = Inl (ParseError (''Invalid JSON on line '' @ show_nat (i + 1) @ '': '' @ exc))
         \<and> i + stripped_leading_lines text < length (split_nl text)
         \<and> strip (split_nl text ! (i + stripped_leading_lines text))
             = strip (split_nl (strip text) ! i))
   \<and> (\<forall>msg. parse_jsonl loads pystr text = Inl (ParseError msg)
     \<longrightarrow> (\<exists>n exc. msg = ''Invalid JSON on line '' @ show_nat n @ '': '' @ exc
           \<and> 1 \<le> n \<and> n \<le> length (split_nl (strip text))
           \<and> \<not> blank (split_nl (strip text) ! (n - 1))
           \<and> loads (strip (split_nl (strip text) ! (n - 1))) = Inl exc
           \<and> n + stripped_leading_lines text \<le> length (split_nl text)
           \<and> strip (split_nl text ! (n + stripped_leading_lines text - 1))
               = strip (split_nl (strip text) ! (n - 1))))"
proof -
  let ?ls = "split_nl (strip text)"
  have ne: "strip text \<noteq> []" if "i < length ?ls" "\<not> blank (?ls ! i)" for i
  proof
    assume "strip text = []"
    then show False
      using that by (simp add: blank_def strip_Nil)
  qed
  have forward: "parse_jsonl loads pystr text
           = Inl (ParseError (''Invalid JSON on line '' @ show_nat (i + 1) @ '': '' @ exc))
         \<and> i + stripped_leading_lines text < length (split_nl text)
         \<and> strip (split_nl text ! (i + stripped_leading_lines text)) = strip (?ls ! i)"
    if "i < length ?ls" "\<forall>j < i. line_passes loads (?ls ! j)" "\<not> blank (?ls ! i)"
      "loads (strip (?ls ! i)) = Inl exc" for i exc
  proof -
    have "jsonl_lines loads pystr 1 ?ls
       = Inl (ParseError (''Invalid JSON on line '' @ show_nat (1 + i) @ '': '' @ exc))"
      using that by (intro jsonl_lines_first_malformed) auto
    then have "parse_jsonl loads pystr text
           = Inl (ParseError (''Invalid JSON on line '' @ show_nat (i + 1) @ '': '' @ exc))"
      by (simp only: parse_jsonl_def add.commute)
    then show ?thesis
      using stripped_line [OF ne [OF that(1,3)] that(1)] by simp
  qed
  have backward: "\<exists>n exc. msg = ''Invalid JSON on line '' @ show_nat n @ '': '' @ exc
           \<and> 1 \<le> n \<and> n \<le> length ?ls
           \<and> \<not> blank (?ls ! (n - 1))
           \<and> loads (strip (?ls ! (n - 1))) = Inl exc
           \<and> n + stripped_leading_lines text \<le> length (split_nl text)
           \<and> strip (split_nl text ! (n + stripped_leading_lines text - 1)) = strip (?ls ! (n - 1))"
    if pe: "parse_jsonl loads pystr text = Inl (ParseError msg)" for msg
  proof -
    obtain i exc where i: "i < length ?ls"
      "msg = ''Invalid JSON on line '' @ show_nat (1 + i) @ '': '' @ exc"
      "\<not> blank (?ls ! i)" "loads (strip (?ls ! i)) = Inl exc"
    proof -
      have "jsonl_lines loads pystr 1 ?ls = Inl (ParseError msg)"
        using pe by (simp only: parse_jsonl_def)
      from jsonl_lines_parse_error [OF this] show ?thesis
        using that by blast
    qed
    have "i + stripped_leading_lines text < length (split_nl text)
         \<and> strip (split_nl text ! (i + stripped_leading_lines text)) = strip (?ls ! i)"
      using stripped_line [OF ne [OF i(1,3)] i(1)] .
    then show ?thesis
      using i by (intro exI [of _ "Suc i"] exI [of _ exc]) simp
  qed
  have F: "\<forall>i exc. i < length ?ls
       \<and> (\<forall>j < i. line_passes loads (?ls ! j))
       \<and> \<not> blank (?ls ! i)
       \<and> loads (strip (?ls ! i)) = Inl exc
     \<longrightarrow> parse_jsonl loads pystr text
           = Inl (ParseError (''Invalid JSON on line '' @ show_nat (i + 1) @ '': '' @ exc))
         \<and> i + stripped_leading_lines text < length (split_nl text)
         \<and> strip (split_nl text ! (i + stripped_leading_lines text)) = strip (?ls ! i)"
    by (intro allI impI, elim conjE, rule forward, assumption+)
  have B: "\<forall>msg. parse_jsonl loads pystr text = Inl (ParseError msg)
     \<longrightarrow> (\<exists>n exc. msg = ''Invalid JSON on line '' @ show_nat n @ '': '' @ exc
           \<and> 1 \<le> n \<and> n \<le> length ?ls
           \<and> \<not> blank (?ls ! (n - 1))
           \<and> loads (strip (?ls ! (n - 1))) = Inl exc
           \<and> n + stripped_leading_lines text \<le> length (split_nl text)
           \<and> strip (split_nl text ! (n + stripped_leading_lines text - 1)) = strip (?ls ! (n - 1)))"
    by (intro allI impI, rule backward, assumption)
  show ?thesis
    by (intro conjI) (fact F B)+
qed

theorem jsonl_error_line_number_witness:
  \<open>parse_jsonl loads_ex str_ex
       ''\<newline> \<newline>{"role":"user","content":"a"}\<newline>{"role":"tool","content":"b"}\<newline>oops''
     = Inl (ParseError ''Invalid JSON on line 3: JSONDecodeError'')
   \<and> stripped_leading_lines
       ''\<newline> \<newline>{"role":"user","content":"a"}\<newline>{"role":"tool","content":"b"}\<newline>oops'' = 2
   \<and> split_nl (strip ''\<newline> \<newline>{"role":"user","content":"a"}\<newline>{"role":"tool","content":"b"}\<newline>oops'') ! 2
       = ''oops''
   \<and> strip (split_nl ''\<newline> \<newline>{"role":"user","content":"a"}\<newline>{"role":"tool","content":"b"}\<newline>oops''
              ! (2 + stripped_leading_lines
                   ''\<newline> \<newline>{"role":"user","content":"a"}\<newline>{"role":"tool","content":"b"}\<newline>oops''))
       = ''oops''\<close>
proof -
  let ?T = \<open>''\<newline> \<newline>{"role":"user","content":"a"}\<newline>{"role":"tool","content":"b"}\<newline>oops''\<close>
  let ?L = \<open>[''{"role":"user","content":"a"}'', ''{"role":"tool","content":"b"}'', ''oops'']\<close>
  have ls: "split_nl (strip ?T) = ?L"
    by code_simp
  have p0: "line_passes loads_ex (?L ! 0)" and p1: "line_passes loads_ex (?L ! 1)"
    by code_simp+
  have b: "\<not> blank (?L ! 2)" "loads_ex (strip (?L ! 2)) = Inl ''JSONDecodeError''"
    by code_simp+
  have k: "stripped_leading_lines ?T = 2"
    by code_simp
  have n: "''Invalid JSON on line '' @ show_nat (2 + 1) @ '': '' @ ''JSONDecodeError''
           = ''Invalid JSON on line 3: JSONDecodeError''"
    by code_simp
  have l2: "?L ! 2 = ''oops''" "strip ''oops'' = ''oops''"
    by code_simp+
  have pass: "\<forall>j < 2. line_passes loads_ex (?L ! j)"
  proof (intro allI impI)
    fix j :: nat
    assume "j < 2"
    then have "j = 0 \<or> j = 1" by arith
    then show "line_passes loads_ex (?L ! j)"
      using p0 p1 by blast
  qed
  have len: "(2::nat) < length ?L"
    by simp
  have fw: "\<forall>i exc. i < length ?L
       \<and> (\<forall>j < i. line_passes loads_ex (?L ! j))
       \<and> \<not> blank (?L ! i)
       \<and> loads_ex (strip (?L ! i)) = Inl exc
     \<longrightarrow> parse_jsonl loads_ex str_ex ?T
           = Inl (ParseError (''Invalid JSON on line '' @ show_nat (i + 1) @ '': '' @ exc))
         \<and> i + stripped_leading_lines ?T < length (split_nl ?T)
         \<and> strip (split_nl ?T ! (i + stripped_leading_lines ?T)) = strip (?L ! i)"
    using jsonl_error_line_number [of ?T loads_ex str_ex] unfolding ls by (rule conjunct1)
  have "parse_jsonl loads_ex str_ex ?T
           = Inl (ParseError (''Invalid JSON on line '' @ show_nat (2 + 1) @ '': '' @ ''JSONDecodeError''))
         \<and> 2 + stripped_leading_lines ?T < length (split_nl ?T)
         \<and> strip (split_nl ?T ! (2 + stripped_leading_lines ?T)) = strip (?L ! 2)"
    using fw [rule_format, of 2 "''JSONDecodeError''"] len pass b by blast
  then have "parse_jsonl loads_ex str_ex ?T = Inl (ParseError ''Invalid JSON on line 3: JSONDecodeError'')"
    and "strip (split_nl ?T ! (2 + stripped_leading_lines ?T)) = ''oops''"
    unfolding n l2 by blast+
  moreover have "split_nl (strip ?T) ! 2 = ''oops''"
    unfolding ls by (rule l2(1))
  ultimately show ?thesis
    using k by blast
qed

subsection \<open>A role that is not a string\<close>

text \<open>
  C5. The claim says that each mapping line yields one message. The code does not: on a
  mapping line whose \<open>role\<close> is not a string, here \<open>null\<close>, \<open>_normalize_role\<close> calls
  \<open>lower\<close> on it and an \<open>AttributeError\<close> leaves \<open>parse_jsonl\<close> and
  \<open>parse_session\<close>, where the content of a line is turned into a string when it is not
  one.
\<close>

theorem jsonl_role_not_string:
  \<open>detect_format loads_ex ''{"role":"user","content":"hi"}\<newline>{"role":null,"content":"x"}'' = ''jsonl''
   \<and> parse_jsonl loads_ex str_ex ''{"role":"user","content":"hi"}\<newline>{"role":null,"content":"x"}''
       = Inl AttributeError
   \<and> parse_session loads_ex str_ex ''{"role":"user","content":"hi"}\<newline>{"role":null,"content":"x"}'' ''log.jsonl''
       = Inl AttributeError\<close>
proof -
  let ?T = \<open>''{"role":"user","content":"hi"}\<newline>{"role":null,"content":"x"}''\<close>
  have fmt: "detect_format loads_ex ?T = ''jsonl''"
    by code_simp
  have err: "parse_jsonl loads_ex str_ex ?T = Inl AttributeError"
    by code_simp
  have ne: "strip ?T \<noteq> []"
    by code_simp
  have "run_parser loads_ex str_ex (detect_format loads_ex ?T) ?T = Inl AttributeError"
    unfolding fmt using err by (simp add: run_parser_def)
  then have "parse_session loads_ex str_ex ?T ''log.jsonl'' = Inl AttributeError"
    using ne by (rule parse_session_error [rotated])
  then show ?thesis
    using fmt err by blast
qed

subsection \<open>Role markers of the generic-narrative parser\<close>




































end
